theory Spec2Isabelle
  imports Complex_Main "HOL-Library.Sublist" "HOL-Library.Multiset"
begin

section \<open>JavaScript strings\<close>

text \<open>
  A JavaScript string is a sequence of code units; it is modelled as a \<open>string\<close> (a list
  of characters, one per code unit).  Every pattern the program searches for is ASCII.
  The operations below are the methods of \<open>String.prototype\<close> that the program calls,
  with string (not regular expression) arguments.
\<close>

abbreviation sq :: char where
  "sq \<equiv> CHR 0x27"

abbreviation nl :: char where
  "nl \<equiv> CHR 0x0A"

text \<open>\<open>s.includes(pat)\<close>\<close>

fun includesStr :: "string \<Rightarrow> string \<Rightarrow> bool" where
  "includesStr [] pat = (pat = [])"
| "includesStr (c # cs) pat = (prefix pat (c # cs) \<or> includesStr cs pat)"

text \<open>The position of the first occurrence of \<open>pat\<close> in \<open>s\<close>, if there is one.\<close>

fun firstIndex :: "string \<Rightarrow> string \<Rightarrow> nat option" where
  "firstIndex [] pat = (if pat = [] then Some 0 else None)"
| "firstIndex (c # cs) pat =
     (if prefix pat (c # cs) then Some 0 else map_option Suc (firstIndex cs pat))"

text \<open>\<open>s.indexOf(pat, from)\<close>: \<open>from\<close> is clamped to \<open>0 .. s.length\<close>; the result is \<open>-1\<close> when
  there is no occurrence at or after \<open>from\<close>.\<close>

definition indexOfFrom :: "string \<Rightarrow> string \<Rightarrow> int \<Rightarrow> int" where
  "indexOfFrom s pat from =
     (let k = nat (max 0 (min from (int (length s))))
      in case firstIndex (drop k s) pat of
           None \<Rightarrow> - 1
         | Some i \<Rightarrow> int (k + i))"

definition indexOf :: "string \<Rightarrow> string \<Rightarrow> int" where
  "indexOf s pat = indexOfFrom s pat 0"

text \<open>\<open>s.substring(a, b)\<close>: both arguments are clamped to \<open>0 .. s.length\<close> and swapped when
  \<open>a > b\<close>.  \<open>s.substring(a)\<close> runs to the end of the string.\<close>

definition substring :: "string \<Rightarrow> int \<Rightarrow> int \<Rightarrow> string" where
  "substring s a b =
     (let n = int (length s);
          a' = max 0 (min a n);
          b' = max 0 (min b n);
          lo = min a' b';
          hi = max a' b'
      in take (nat (hi - lo)) (drop (nat lo) s))"

definition substringFrom :: "string \<Rightarrow> int \<Rightarrow> string" where
  "substringFrom s a = substring s a (int (length s))"

text \<open>\<open>s.replace(pat, rep)\<close> with a string pattern: the first occurrence only.  (None of
  the replacement strings of the program contains a dollar sign.)\<close>

fun replace :: "string \<Rightarrow> string \<Rightarrow> string \<Rightarrow> string" where
  "replace [] pat rep = (if pat = [] then rep else [])"
| "replace (c # cs) pat rep =
     (if prefix pat (c # cs) then rep @ drop (length pat) (c # cs)
      else c # replace cs pat rep)"

text \<open>\<open>s.split(sep)\<close> with a string separator.\<close>

function splitStr :: "string \<Rightarrow> string \<Rightarrow> string list" where
  "splitStr s sep =
     (if sep = [] then map (\<lambda>c. [c]) s
      else case firstIndex s sep of
             None \<Rightarrow> [s]
           | Some i \<Rightarrow> take i s # splitStr (drop (i + length sep) s) sep)"
  by pat_completeness auto
termination
proof (relation "measure (\<lambda>(s, sep). length s)")
  show "wf (measure (\<lambda>(s, sep). length s))" by simp
next
  fix s sep :: string and i :: nat
  assume "sep \<noteq> []" and "firstIndex s sep = Some i"
  then have "s \<noteq> []" by (cases s) auto
  with \<open>sep \<noteq> []\<close> show "((drop (i + length sep) s, sep), (s, sep)) \<in> measure (\<lambda>(s, sep). length s)"
    by (cases sep) auto
qed

declare splitStr.simps [simp del]

text \<open>White space in the sense of \<open>trim\<close> and of the class \<open>\s\<close>, among the code units
  below 256: tab, line feed, vertical tab, form feed, carriage return, space and the
  no-break space.\<close>

definition isSpace :: "char \<Rightarrow> bool" where
  "isSpace c = (c \<in> {CHR 0x09, CHR 0x0A, CHR 0x0B, CHR 0x0C, CHR 0x0D, CHR 0x20, CHR 0xA0})"

definition trim :: "string \<Rightarrow> string" where
  "trim s = rev (dropWhile isSpace (rev (dropWhile isSpace s)))"

text \<open>A number in a template literal: its decimal digits.\<close>

fun showNat :: "nat \<Rightarrow> string" where
  "showNat n =
     (if n < 10 then [char_of (48 + n)]
      else showNat (n div 10) @ [char_of (48 + n mod 10)])"

declare showNat.simps [simp del]

text \<open>A \<open>Set<string>\<close> keeps its members in insertion order; \<open>add\<close> of a member that is
  already there changes nothing.\<close>

definition setAdd :: "string list \<Rightarrow> string \<Rightarrow> string list" where
  "setAdd xs x = (if x \<in> set xs then xs else xs @ [x])"

definition newSet :: "string list \<Rightarrow> string list" where
  "newSet xs = foldl setAdd [] xs"


section \<open>Data model\<close>

text \<open>
  Modelled from the spec: \<open>APIFunction\<close> and its descriptor (module \<open>exploreAPI\<close>) are
  not among the source files; these records hold the members that the prompt code reads.
\<close>

record descriptor =
  docComment :: "string option"
  implementation :: string

record apiFunction =
  packageName :: string
  accessPath :: string
  signature :: string
  functionName :: string
  descriptor :: descriptor

text \<open>
  Modelled from the spec: \<open>TestOutcome\<close> (module \<open>report\<close>) is not among the source
  files.  An outcome is PASSED, FAILED with the message of its error, or something else.
\<close>

datatype testOutcome = PASSED | FAILED string | OTHER

record promptOptions =
  includeSnippets :: bool
  includeDocComment :: bool
  includeFunctionBody :: bool
  templateFileName :: "string option"
  retryTemplateFileName :: "string option"

definition defaultPromptOptions :: promptOptions where
  "defaultPromptOptions =
     \<lparr> includeSnippets = False, includeDocComment = False, includeFunctionBody = False,
       templateFileName = None, retryTemplateFileName = None \<rparr>"

text \<open>The fields that the constructor of \<open>Prompt\<close> sets.\<close>

record promptFields =
  pimports :: string
  psignature :: string
  pdocComment :: string
  functionBody :: string
  suiteHeader :: string
  testHeader :: string
  pfun :: apiFunction
  usageSnippets :: "string list"
  options :: promptOptions

text \<open>
  A prompt object is a \<open>Prompt\<close> or a \<open>RetryPrompt\<close>, which extends it with the previous
  prompt, the failing body and the error message.  Objects are held by value: the prompt
  that a provenance record, a retry prompt or a record of the collector refers to is the
  prompt as it was when the reference was made.  The provenance is the one member of a
  prompt that changes after its construction, so a copy differs from the object of the
  program in nothing but the provenance that it shows.  Records are appended to a new
  prompt before it is pushed on the worklist, and to the prompt that the map of
  generated prompts holds; the prompts of the worklist and of the map therefore show the
  provenance that the objects have, and what is stated about provenance is stated about
  these.  The copies that provenance records, retry prompts and the collector hold do
  not show what is appended later.
\<close>

datatype prompt =
    PromptObj promptFields "provenance list"
  | RetryPromptObj promptFields "provenance list" prompt string string
and provenance =
    Provenance (originalPrompt: prompt) (testId: nat) (refiner: string)

fun fieldsOf :: "prompt \<Rightarrow> promptFields" where
  "fieldsOf (PromptObj f pr) = f"
| "fieldsOf (RetryPromptObj f pr prev body err) = f"

fun provenanceOf :: "prompt \<Rightarrow> provenance list" where
  "provenanceOf (PromptObj f pr) = pr"
| "provenanceOf (RetryPromptObj f pr prev body err) = pr"

text \<open>\<open>p instanceof RetryPrompt\<close>\<close>

fun isRetryPrompt :: "prompt \<Rightarrow> bool" where
  "isRetryPrompt (PromptObj f pr) = False"
| "isRetryPrompt (RetryPromptObj f pr prev body err) = True"

fun withProvenance :: "prompt \<Rightarrow> provenance list \<Rightarrow> prompt" where
  "withProvenance (PromptObj f pr) infos = PromptObj f (pr @ infos)"
| "withProvenance (RetryPromptObj f pr prev body err) infos =
     RetryPromptObj f (pr @ infos) prev body err"

datatype error =
    NoTemplateName
  | CannotReadTemplate string
  | CannotCompileTemplate string

text \<open>
  What the prompt code takes from outside.  \<open>sanitizePackageName\<close> (module \<open>exploreAPI\<close>),
  \<open>trimAndCombineDocComment\<close> and \<open>closeBrackets\<close> (module \<open>syntax\<close>) are functions of the
  repository that are not among the source files; \<open>closeBrackets\<close> gives the closed
  source or nothing.  \<open>readFileSync\<close> is the file system (nothing: the read throws) and
  \<open>handlebars\<close> compiles a template text and applies it to the named fields (nothing: the
  template does not compile).
\<close>

record syntaxEnv =
  sanitizePackageName :: "string \<Rightarrow> string"
  trimAndCombineDocComment :: "string \<Rightarrow> string"
  closeBrackets :: "string \<Rightarrow> string option"
  readFileSync :: "string \<Rightarrow> string option"
  handlebars :: "string \<Rightarrow> (string \<times> string) list \<Rightarrow> string option"


section \<open>Prompt\<close>

text \<open>
  The constructor.  The import block is a \<open>dedent\<close> template literal: the common
  indentation and the surrounding white space are removed and the escaped \<open>\n\<close> at its end
  becomes one line feed, so that the block is three lines, each ended by a line feed.
  The package name and its sanitized form stand in the block as they are: they are taken
  to hold no line feed and no backslash, which are what \<open>dedent\<close> rewrites.
\<close>

definition newFields :: "syntaxEnv \<Rightarrow> apiFunction \<Rightarrow> string list \<Rightarrow> promptOptions \<Rightarrow> promptFields" where
  "newFields E fn snippets opts =
     (let sanitizedPackageName = sanitizePackageName E (packageName fn)
      in \<lparr> pimports =
             ''let mocha = require('mocha');'' @ [nl] @
             ''let assert = require('assert');'' @ [nl] @
             ''let '' @ sanitizedPackageName @ '' = require('' @ [sq] @ packageName fn @ [sq] @ '');'' @ [nl],
           psignature = signature fn,
           pdocComment =
             (if includeDocComment opts
              then trimAndCombineDocComment E
                     (case docComment (descriptor fn) of None \<Rightarrow> [] | Some d \<Rightarrow> d)
              else []),
           functionBody =
             (if includeFunctionBody opts then implementation (descriptor fn) else []),
           suiteHeader =
             ''describe('test '' @ sanitizedPackageName @ [sq] @ '', function() {'' @ [nl],
           testHeader =
             ''    it('test '' @ accessPath fn @ [sq] @ '', function(done) {'' @ [nl],
           pfun = fn,
           usageSnippets = snippets,
           options = opts \<rparr>)"

definition newPrompt :: "syntaxEnv \<Rightarrow> apiFunction \<Rightarrow> string list \<Rightarrow> promptOptions \<Rightarrow> prompt" where
  "newPrompt E fn snippets opts = PromptObj (newFields E fn snippets opts) []"

definition newRetryPrompt :: "syntaxEnv \<Rightarrow> prompt \<Rightarrow> string \<Rightarrow> string \<Rightarrow> prompt" where
  "newRetryPrompt E prev body err =
     RetryPromptObj
       (newFields E (pfun (fieldsOf prev)) (usageSnippets (fieldsOf prev)) (options (fieldsOf prev)))
       [] prev body err"

text \<open>\<open>assembleUsageSnippets\<close>: each snippet gets its number and loses its line feeds.\<close>

fun numberSnippets :: "nat \<Rightarrow> string list \<Rightarrow> string list" where
  "numberSnippets index [] = []"
| "numberSnippets index (snippet # rest) =
     (''// usage #'' @ showNat (index + 1) @ [nl] @ concat (splitStr snippet [nl]) @ [nl])
       # numberSnippets (index + 1) rest"

definition assembleUsageSnippets :: "promptFields \<Rightarrow> string" where
  "assembleUsageSnippets f =
     (if \<not> includeSnippets (options f) then []
      else concat (numberSnippets 0 (usageSnippets f)))"

text \<open>
  The normalisation of \<open>assemble\<close>.  Each of its three loops replaces the first occurrence
  of a pattern by a shorter text while there is one; the loops end because the text gets
  shorter.
\<close>

lemma length_replace:
  "includesStr s pat \<Longrightarrow> length (replace s pat rep) + length pat = length s + length rep"
proof (induction s)
  case Nil
  then show ?case by simp
next
  case (Cons c cs)
  show ?case
  proof (cases "prefix pat (c # cs)")
    case True
    then have "length pat \<le> length (c # cs)" by (rule prefix_length_le)
    with True show ?thesis by simp
  next
    case False
    with Cons show ?thesis by simp
  qed
qed

function collapseBlankLines :: "string \<Rightarrow> string" where
  "collapseBlankLines s =
     (if includesStr s [nl, nl, nl]
      then collapseBlankLines (replace s [nl, nl, nl] [nl, nl])
      else s)"
  by pat_completeness auto
termination
proof (relation "measure length")
  show "wf (measure length)" by simp
next
  fix s :: string
  assume "includesStr s [nl, nl, nl]"
  from length_replace [OF this, of "[nl, nl]"]
  show "(replace s [nl, nl, nl] [nl, nl], s) \<in> measure length" by simp
qed

declare collapseBlankLines.simps [simp del]

function trimFenceStart :: "string \<Rightarrow> string" where
  "trimFenceStart s =
     (if includesStr s (''```'' @ [nl, nl])
      then trimFenceStart (replace s (''```'' @ [nl, nl]) (''```'' @ [nl]))
      else s)"
  by pat_completeness auto
termination
proof (relation "measure length")
  show "wf (measure length)" by simp
next
  fix s :: string
  assume "includesStr s (''```'' @ [nl, nl])"
  from length_replace [OF this, of "''```'' @ [nl]"]
  show "(replace s (''```'' @ [nl, nl]) (''```'' @ [nl]), s) \<in> measure length" by simp
qed

declare trimFenceStart.simps [simp del]

function trimFenceEnd :: "string \<Rightarrow> string" where
  "trimFenceEnd s =
     (if includesStr s ([nl, nl] @ ''```'')
      then trimFenceEnd (replace s ([nl, nl] @ ''```'') ([nl] @ ''```''))
      else s)"
  by pat_completeness auto
termination
proof (relation "measure length")
  show "wf (measure length)" by simp
next
  fix s :: string
  assume "includesStr s ([nl, nl] @ ''```'')"
  from length_replace [OF this, of "[nl] @ ''```''"]
  show "(replace s ([nl, nl] @ ''```'') ([nl] @ ''```''), s) \<in> measure length" by simp
qed

declare trimFenceEnd.simps [simp del]

text \<open>The three paragraph breaks: a line feed before the first occurrence of a phrase.\<close>

definition paragraphBreak :: "string \<Rightarrow> string \<Rightarrow> string" where
  "paragraphBreak phrase s =
     (if includesStr s phrase then replace s phrase ([nl] @ phrase) else s)"

definition paragraphBreaks :: "string \<Rightarrow> string" where
  "paragraphBreaks s =
     paragraphBreak ''You may use'' (paragraphBreak ''This function'' (paragraphBreak ''Please'' s))"

text \<open>The three loops, in their order, and after them the paragraph breaks.\<close>

definition collapsePasses :: "string \<Rightarrow> string" where
  "collapsePasses expandedTemplate =
     trimFenceEnd (trimFenceStart (collapseBlankLines expandedTemplate))"

definition normalize :: "string \<Rightarrow> string" where
  "normalize expandedTemplate = paragraphBreaks (collapsePasses expandedTemplate)"

text \<open>The fields that \<open>Prompt.assemble\<close> hands to the compiled template.\<close>

definition templateFields :: "promptFields \<Rightarrow> (string \<times> string) list" where
  "templateFields f =
     (let sigText = psignature f;
          bodyText = functionBody f;
          docComments = pdocComment f;
          snippets = assembleUsageSnippets f;
          headers = pimports f @ suiteHeader f @ testHeader f
      in [(''signature'', trim sigText),
          (''docComments'', if docComments \<noteq> [] then docComments else []),
          (''functionBody'',
             if bodyText \<noteq> []
             then ''This function is defined as follows:'' @ [nl] @ ''```'' @ [nl] @
                  trim bodyText @ [nl] @ ''```''
             else []),
          (''snippets'',
             if snippets \<noteq> []
             then ''You may use the following examples to guide your implementation:'' @ [nl] @
                  ''```'' @ [nl] @ snippets @ [nl] @ ''```''
             else []),
          (''code'', headers)])"

text \<open>Reading and compiling a template; both can throw.\<close>

definition expandTemplate ::
  "syntaxEnv \<Rightarrow> string option \<Rightarrow> (string \<times> string) list \<Rightarrow> error + string" where
  "expandTemplate E fileName context =
     (case fileName of
        None \<Rightarrow> Inl NoTemplateName
      | Some name \<Rightarrow>
          (case readFileSync E name of
             None \<Rightarrow> Inl (CannotReadTemplate name)
           | Some template \<Rightarrow>
               (case handlebars E template context of
                  None \<Rightarrow> Inl (CannotCompileTemplate name)
                | Some expandedTemplate \<Rightarrow> Inr expandedTemplate)))"

text \<open>The text that \<open>completeTest\<close> hands to \<open>closeBrackets\<close>.\<close>

definition indentFirstLine :: "string \<Rightarrow> string" where
  "indentFirstLine s =
     (case s of
        [] \<Rightarrow> []
      | c # cs \<Rightarrow> if \<not> isSpace c then replicate 8 CHR '' '' @ s else s)"

definition firstLine :: "string \<Rightarrow> string" where
  "firstLine body = (case splitStr body [nl] of [] \<Rightarrow> [] | line # rest \<Rightarrow> line)"

definition testCode :: "promptFields \<Rightarrow> string \<Rightarrow> bool \<Rightarrow> string" where
  "testCode f body stubOutHeaders =
     (let code = [];
          line = firstLine body;
          code = (if \<not> includesStr line ''require'' then code @ pimports f @ [nl] else code)
      in if \<not> includesStr body ''describe(''
         then code @
              (if stubOutHeaders
               then ''describe('test suite', function() {'' @ [nl] @
                    ''    it('test case', function(done) {'' @ [nl]
               else suiteHeader f @ testHeader f) @
              indentFirstLine (trim body) @ [nl]
         else code @ body)"

text \<open>The last replacement of \<open>completeTest\<close>: a closing \<open>})})\<close> at the very end.\<close>

definition beautify :: "string \<Rightarrow> string" where
  "beautify source =
     (if suffix ''})})'' source
      then take (length source - 4) source @ ''    })'' @ [nl] @ ''})''
      else source)"

definition completeTest :: "syntaxEnv \<Rightarrow> prompt \<Rightarrow> string \<Rightarrow> bool \<Rightarrow> string option" where
  "completeTest E p body stubOutHeaders =
     (let code = testCode (fieldsOf p) body stubOutHeaders;
          fixed = closeBrackets E code
      in map_option beautify fixed)"

text \<open>\<open>assemble\<close>, of a \<open>Prompt\<close> and as \<open>RetryPrompt\<close> overrides it.  A failing test that
  \<open>completeTest\<close> could not complete is rendered as the empty text.\<close>

fun assemble :: "syntaxEnv \<Rightarrow> prompt \<Rightarrow> error + string" where
  "assemble E (PromptObj f pr) =
     (case expandTemplate E (templateFileName (options f)) (templateFields f) of
        Inl e \<Rightarrow> Inl e
      | Inr expandedTemplate \<Rightarrow> Inr (normalize expandedTemplate))"
| "assemble E (RetryPromptObj f pr prev body err) =
     (let rawFailingTest = completeTest E prev body True
      in expandTemplate E (retryTemplateFileName (options f))
           [(''test'', case rawFailingTest of None \<Rightarrow> [] | Some t \<Rightarrow> t), (''error'', err)])"

text \<open>\<open>functionHasDocComment\<close>\<close>

definition functionHasDocComment :: "prompt \<Rightarrow> bool" where
  "functionHasDocComment p = (docComment (descriptor (pfun (fieldsOf p))) \<noteq> None)"


section \<open>Refiners\<close>

datatype refiner = SnippetIncluder | RetryWithError | DocCommentIncluder | FunctionBodyIncluder

fun refinerName :: "refiner \<Rightarrow> string" where
  "refinerName SnippetIncluder = ''SnippetIncluder''"
| "refinerName RetryWithError = ''RetryWithError''"
| "refinerName DocCommentIncluder = ''DocCommentIncluder''"
| "refinerName FunctionBodyIncluder = ''FunctionBodyIncluder''"

fun refine :: "syntaxEnv \<Rightarrow> refiner \<Rightarrow> prompt \<Rightarrow> string \<Rightarrow> testOutcome \<Rightarrow> prompt list" where
  "refine E SnippetIncluder original completion outcome =
     (if \<not> includeSnippets (options (fieldsOf original)) \<and>
         length (usageSnippets (fieldsOf original)) > 0
      then [newPrompt E (pfun (fieldsOf original)) (usageSnippets (fieldsOf original))
              ((options (fieldsOf original))\<lparr>includeSnippets := True\<rparr>)]
      else [])"
| "refine E DocCommentIncluder original completion outcome =
     (if \<not> includeDocComment (options (fieldsOf original)) \<and> functionHasDocComment original
      then [newPrompt E (pfun (fieldsOf original)) (usageSnippets (fieldsOf original))
              ((options (fieldsOf original))\<lparr>includeDocComment := True\<rparr>)]
      else [])"
| "refine E RetryWithError original completion outcome =
     (if \<not> isRetryPrompt original
      then (case outcome of
              FAILED message \<Rightarrow> [newRetryPrompt E original completion message]
            | _ \<Rightarrow> [])
      else [])"
| "refine E FunctionBodyIncluder original completion outcome =
     (if \<not> includeFunctionBody (options (fieldsOf original)) \<and>
         implementation (descriptor (pfun (fieldsOf original))) \<noteq> []
      then [newPrompt E (pfun (fieldsOf original)) (usageSnippets (fieldsOf original))
              ((options (fieldsOf original))\<lparr>includeFunctionBody := True\<rparr>)]
      else [])"

definition refiners :: "refiner list" where
  "refiners = [SnippetIncluder, RetryWithError, DocCommentIncluder, FunctionBodyIncluder]"


section \<open>Extraction of tests from a raw completion\<close>

text \<open>
  The regular expression of \<open>extractTestFromRawCompletion\<close> is an opening fence, a tag that
  runs to the end of the line, a line feed, group 1, a line feed and a closing fence.
  Group 1 is the longest run of characters none of which is followed by a fence, so it ends
  just before the first character that a fence follows, and that character has to be the
  line feed (a shorter group would have to end at a line feed followed by a fence, and
  the group holds none).  \<open>scanCode\<close> reads group 1 and the closing fence, \<open>matchFence\<close>
  the whole expression at the start of a text, and \<open>execFence\<close> is \<open>exec\<close>: group 1 of the
  leftmost match.
\<close>

fun scanCode :: "string \<Rightarrow> string option" where
  "scanCode [] = None"
| "scanCode (c # cs) =
     (if prefix ''```'' cs then (if c = nl then Some [] else None)
      else map_option ((#) c) (scanCode cs))"

definition matchFence :: "string \<Rightarrow> string option" where
  "matchFence s =
     (if prefix ''```'' s
      then (case dropWhile (\<lambda>c. c \<noteq> nl \<and> c \<noteq> CHR 0x0D) (drop 3 s) of
              [] \<Rightarrow> None
            | c # cs \<Rightarrow> if c = nl then scanCode cs else None)
      else None)"

fun execFence :: "string \<Rightarrow> string option" where
  "execFence [] = matchFence []"
| "execFence (c # cs) =
     (case matchFence (c # cs) of
        Some code \<Rightarrow> Some code
      | None \<Rightarrow> execFence cs)"

lemma firstIndex_bound:
  "firstIndex s pat = Some i \<Longrightarrow> i + length pat \<le> length s"
proof (induction s arbitrary: i)
  case Nil
  then show ?case by (simp split: if_splits)
next
  case (Cons c cs)
  show ?case
  proof (cases "prefix pat (c # cs)")
    case True
    then have "length pat \<le> length (c # cs)" by (rule prefix_length_le)
    with True Cons.prems show ?thesis by simp
  next
    case False
    with Cons.prems obtain j where "firstIndex cs pat = Some j" and "i = Suc j"
      by auto
    with Cons.IH [of j] show ?thesis by simp
  qed
qed

lemma indexOfFrom_bounds:
  assumes "indexOfFrom s pat from \<noteq> - 1" and "pat \<noteq> []"
  shows "from \<le> indexOfFrom s pat from \<and> 0 \<le> indexOfFrom s pat from
    \<and> indexOfFrom s pat from + int (length pat) \<le> int (length s)"
proof -
  define k where "k = nat (max 0 (min from (int (length s))))"
  from assms obtain i where i: "firstIndex (drop k s) pat = Some i"
    and r: "indexOfFrom s pat from = int (k + i)"
    by (auto simp: indexOfFrom_def Let_def k_def split: option.splits)
  from firstIndex_bound [OF i] have b: "i + length pat \<le> length s - k" by simp
  from assms(2) have "0 < length pat" by simp
  with b have "k < length s" by linarith
  then have "from \<le> int k" by (simp add: k_def)
  with b r \<open>k < length s\<close> show ?thesis by auto
qed

text \<open>The loop that cuts the block at every further \<open>it(\<close>.\<close>

function splitTests :: "string \<Rightarrow> int \<Rightarrow> string list \<Rightarrow> string list \<times> int" where
  "splitTests code testIndex tests =
     (if indexOfFrom code ''it('' (testIndex + 1) \<noteq> - 1
      then (let nextTestIndex = indexOfFrom code ''it('' (testIndex + 1);
                test = substring code testIndex nextTestIndex
            in splitTests code nextTestIndex (setAdd tests test))
      else (tests, testIndex))"
  by pat_completeness auto
termination
proof (relation "measure (\<lambda>(code, testIndex, tests). nat (int (length code) - testIndex))", goal_cases)
  case 1
  show ?case by simp
next
  case (2 code testIndex tests x)
  from indexOfFrom_bounds [OF 2(1)] 2(2) show ?case by simp
qed

declare splitTests.simps [simp del]

definition extractTestFromRawCompletion :: "string \<Rightarrow> string list" where
  "extractTestFromRawCompletion rawCompletion =
     (case execFence rawCompletion of
        Some code \<Rightarrow>
          (if length (splitStr code ''it('') = 2 then setAdd [] code
           else
             (let indexOfSuite = indexOf code ''describe('';
                  indexOfFirstTest = indexOf code ''it('';
                  (tests, testIndex) = splitTests code indexOfFirstTest [];
                  lastTest = substringFrom code testIndex;
                  tests = setAdd tests lastTest;
                  preSuite = substring code 0 indexOfSuite;
                  suiteHeader = substring code indexOfSuite indexOfFirstTest
              in newSet (map (\<lambda>test. preSuite @ suiteHeader @ test) tests)))
      | None \<Rightarrow> setAdd [] rawCompletion)"


section \<open>The result collector\<close>

type_synonym temperature = real

record testInfo =
  infoId :: nat
  prompts :: "prompt list"
  testName :: string
  testSource :: string
  outcome :: testOutcome
  api :: string

record collector =
  tests :: "testInfo list"
  testResults :: "(nat \<times> temperature \<times> testOutcome) list"
  promptInfos :: "(prompt \<times> temperature \<times> string list) list"

text \<open>
  Modelled from the spec: the collector (module \<open>testResultCollector\<close>) is not among the
  source files.  \<open>recordTestInfo\<close> is idempotent by source identity: a repeated call with
  the same source returns the same record, with the calling prompt added to its prompts.
  \<open>recordTestResult\<close> stores the outcome in the record (the record of that source) and
  \<open>recordPromptInfo\<close> keeps what it is given.  A record that has no result yet holds the
  outcome OTHER.
\<close>

definition recordTestInfo ::
  "string \<Rightarrow> prompt \<Rightarrow> string \<Rightarrow> collector \<Rightarrow> testInfo \<times> collector" where
  "recordTestInfo source prompt path c =
     (case find (\<lambda>t. testSource t = source) (tests c) of
        Some t \<Rightarrow>
          (let t' = t\<lparr>prompts := prompts t @ [prompt]\<rparr>
           in (t', c\<lparr>tests := map (\<lambda>u. if testSource u = source then t' else u) (tests c)\<rparr>))
      | None \<Rightarrow>
          (let t = \<lparr> infoId = length (tests c), prompts = [prompt],
                     testName = ''test_'' @ showNat (length (tests c)) @ ''.js'',
                     testSource = source, outcome = OTHER, api = path \<rparr>
           in (t, c\<lparr>tests := tests c @ [t]\<rparr>)))"

definition recordTestResult ::
  "testInfo \<Rightarrow> temperature \<Rightarrow> testOutcome \<Rightarrow> collector \<Rightarrow> collector" where
  "recordTestResult info temperature result c =
     c\<lparr> tests := map (\<lambda>u. if testSource u = testSource info then u\<lparr>outcome := result\<rparr> else u)
                   (tests c),
        testResults := testResults c @ [(infoId info, temperature, result)] \<rparr>"

definition recordPromptInfo ::
  "prompt \<Rightarrow> temperature \<Rightarrow> string list \<Rightarrow> collector \<Rightarrow> collector" where
  "recordPromptInfo prompt temperature completions c =
     c\<lparr> promptInfos := promptInfos c @ [(prompt, temperature, completions)] \<rparr>"


section \<open>The generation driver\<close>

text \<open>
  The members of \<open>TestGenerator\<close>.  The model and the validator are collaborators that
  may answer the same question differently each time, so each also gets the number of
  questions it has been asked before.  The collector is part of the state.
\<close>

record testGenerator =
  temperatures :: "temperature list"
  snippetMap :: "string \<Rightarrow> string list option"
  completions :: "nat \<Rightarrow> string \<Rightarrow> temperature \<Rightarrow> string list"
  genTemplateFileName :: string
  genRetryTemplateFileName :: string
  validateTest :: "nat \<Rightarrow> string \<Rightarrow> string \<Rightarrow> testOutcome"

text \<open>
  The state of \<open>generateAndValidateTests\<close>: the local variables of one pass of its
  \<open>for\<close> loop (the worklist, a JavaScript array whose last element is popped, the map of
  generated prompts in insertion order, the flag), the collector, and two logs: the
  queries put to the model and the tests handed to the validator.
\<close>

record runState =
  worklist :: "prompt list"
  generatedPrompts :: "(string \<times> prompt) list"
  generatedPassingTests :: bool
  collector :: collector
  queries :: "(string \<times> temperature) list"
  validations :: "(string \<times> string) list"

definition validateCompletion ::
  "syntaxEnv \<Rightarrow> testGenerator \<Rightarrow> prompt \<Rightarrow> string \<Rightarrow> temperature \<Rightarrow> runState
     \<Rightarrow> testInfo \<times> runState" where
  "validateCompletion E G prompt completion temperature st =
     (let source = completeTest E prompt completion True;
          (info, c) = recordTestInfo (case source of None \<Rightarrow> completion | Some src \<Rightarrow> src)
                        prompt (accessPath (pfun (fieldsOf prompt))) (collector st);
          st1 = st\<lparr>collector := c\<rparr>
      in if length (prompts info) > 1 then (info, st1)
         else
           (let (result, st2) =
                  (if completion = [] then (FAILED ''Empty test'', st1)
                   else if source \<noteq> None \<and> source \<noteq> Some []
                   then (validateTest G (length (validations st1)) (testName info) (testSource info),
                         st1\<lparr>validations := validations st1 @ [(testName info, testSource info)]\<rparr>)
                   else (FAILED ''Invalid syntax'', st1))
            in (info\<lparr>outcome := result\<rparr>,
                st2\<lparr>collector := recordTestResult info temperature result (collector st2)\<rparr>)))"

definition refinePrompts ::
  "syntaxEnv \<Rightarrow> prompt \<Rightarrow> string \<Rightarrow> testInfo \<Rightarrow> prompt list \<Rightarrow> prompt list" where
  "refinePrompts E prompt completion info wl =
     foldl (\<lambda>wl r.
              foldl (\<lambda>wl refinedPrompt.
                       wl @ [withProvenance refinedPrompt
                               [Provenance prompt (infoId info) (refinerName r)]])
                wl (refine E r prompt completion (outcome info)))
       wl refiners"

text \<open>The loop over the tests of one raw completion, and the loop over the raw
  completions of one query.\<close>

fun processTests ::
  "syntaxEnv \<Rightarrow> testGenerator \<Rightarrow> prompt \<Rightarrow> temperature \<Rightarrow> string list \<Rightarrow> runState \<Rightarrow> runState" where
  "processTests E G prompt temperature [] st = st"
| "processTests E G prompt temperature (test # rest) st =
     (let (info, st1) = validateCompletion E G prompt test temperature st;
          st2 = (if outcome info = PASSED then st1\<lparr>generatedPassingTests := True\<rparr> else st1);
          st3 = st2\<lparr>worklist := refinePrompts E prompt test info (worklist st2)\<rparr>
      in if generatedPassingTests st3 then st3
         else processTests E G prompt temperature rest st3)"

fun processCompletions ::
  "syntaxEnv \<Rightarrow> testGenerator \<Rightarrow> prompt \<Rightarrow> temperature \<Rightarrow> string list \<Rightarrow> runState \<Rightarrow> runState" where
  "processCompletions E G prompt temperature [] st = st"
| "processCompletions E G prompt temperature (rawCompletion # rest) st =
     (let candidates = extractTestFromRawCompletion rawCompletion;
          st1 = (if length candidates > 0 then processTests E G prompt temperature candidates st
                 else st)
      in processCompletions E G prompt temperature rest st1)"

text \<open>One pass of the \<open>while\<close> loop, on a worklist that is not empty.  An exception of
  \<open>assemble\<close> ends the run.  When the text has been generated before, the prompt that the
  map holds for it gets the provenance of the popped prompt; the copies of that prompt
  elsewhere in the state stay as they are.\<close>

definition step ::
  "syntaxEnv \<Rightarrow> testGenerator \<Rightarrow> temperature \<Rightarrow> runState \<Rightarrow> error + runState" where
  "step E G temperature st =
     (let prompt = last (worklist st);
          st1 = st\<lparr>worklist := butlast (worklist st)\<rparr>
      in case assemble E prompt of
           Inl e \<Rightarrow> Inl e
         | Inr assembledPrompt \<Rightarrow>
             (case map_of (generatedPrompts st1) assembledPrompt of
                Some previousPrompt \<Rightarrow>
                  Inr (st1\<lparr>generatedPrompts :=
                         map (\<lambda>(text, q). if text = assembledPrompt
                                then (text, withProvenance q (provenanceOf prompt))
                                else (text, q))
                           (generatedPrompts st1)\<rparr>)
              | None \<Rightarrow>
                  (let st2 = st1\<lparr>generatedPrompts :=
                               generatedPrompts st1 @ [(assembledPrompt, prompt)]\<rparr>;
                       rawCompletions =
                         completions G (length (queries st2)) assembledPrompt temperature;
                       st3 = st2\<lparr>queries := queries st2 @ [(assembledPrompt, temperature)]\<rparr>;
                       completionSet = [];
                       st4 = processCompletions E G prompt temperature rawCompletions st3
                   in Inr (st4\<lparr>collector :=
                             recordPromptInfo prompt temperature completionSet (collector st4)\<rparr>))))"

function run ::
  "syntaxEnv \<Rightarrow> testGenerator \<Rightarrow> temperature \<Rightarrow> runState \<Rightarrow> error + runState" where
  "run E G temperature st =
     (if length (worklist st) > 0
      then (case step E G temperature st of
              Inl e \<Rightarrow> Inl e
            | Inr st' \<Rightarrow> run E G temperature st')
      else Inr st)"
  by pat_completeness auto

text \<open>
  The loop ends: a refined prompt has a smaller rank than the prompt it was refined from,
  where the rank counts the inclusion flags that are not set twice and a prompt that is
  not a retry prompt once.  So every pass of the loop replaces one prompt of the worklist
  by prompts of smaller rank, however many the model's completions give rise to.
\<close>

definition unsetFlags :: "promptOptions \<Rightarrow> nat" where
  "unsetFlags opts =
     (if includeSnippets opts then 0 else 1) + (if includeDocComment opts then 0 else 1)
       + (if includeFunctionBody opts then 0 else 1)"

definition rank :: "prompt \<Rightarrow> nat" where
  "rank p = 2 * unsetFlags (options (fieldsOf p)) + (if isRetryPrompt p then 0 else 1)"

lemma options_newFields [simp]: "options (newFields E fn sn opts) = opts"
  by (simp add: newFields_def Let_def)

lemma rank_withProvenance [simp]: "rank (withProvenance p infos) = rank p"
  by (rule fieldsOf.cases [of p]) (simp_all add: rank_def)

lemma refine_cases:
  "refine E r p c out = [] \<or> (\<exists>q. refine E r p c out = [q] \<and> rank q < rank p)"
proof (cases r)
  case SnippetIncluder
  then show ?thesis by (simp add: rank_def unsetFlags_def newPrompt_def)
next
  case RetryWithError
  then show ?thesis by (cases out) (simp_all add: rank_def newRetryPrompt_def)
next
  case DocCommentIncluder
  then show ?thesis by (simp add: rank_def unsetFlags_def newPrompt_def)
next
  case FunctionBodyIncluder
  then show ?thesis by (simp add: rank_def unsetFlags_def newPrompt_def)
qed

lemma refine_rank: "q \<in> set (refine E r p c out) \<Longrightarrow> rank q < rank p"
  using refine_cases [of E r p c out] by auto

lemma refinePrompts_worklist:
  "\<exists>new. refinePrompts E p c info wl = wl @ new \<and> (\<forall>q\<in>set new. rank q < rank p)"
proof -
  have inner: "\<exists>new. foldl (\<lambda>wl refinedPrompt. wl @ [withProvenance refinedPrompt [Provenance p i n]]) wl qs = wl @ new
      \<and> (\<forall>q\<in>set new. rank q < rank p)" if "\<forall>q\<in>set qs. rank q < rank p" for qs wl i n
    using that
  proof (induction qs arbitrary: wl)
    case Nil
    then show ?case by simp
  next
    case (Cons a qs)
    from Cons.prems have "\<forall>q\<in>set qs. rank q < rank p" by simp
    from Cons.IH [OF this, of "wl @ [withProvenance a [Provenance p i n]]"]
    obtain new where "foldl (\<lambda>wl refinedPrompt. wl @ [withProvenance refinedPrompt [Provenance p i n]]) (wl @ [withProvenance a [Provenance p i n]]) qs
        = (wl @ [withProvenance a [Provenance p i n]]) @ new" and "\<forall>q\<in>set new. rank q < rank p"
      by blast
    with Cons.prems show ?case
      by (intro exI [of _ "withProvenance a [Provenance p i n] # new"]) simp
  qed
  have outer: "\<exists>new. foldl (\<lambda>wl r. foldl (\<lambda>wl refinedPrompt. wl @ [withProvenance refinedPrompt [Provenance p (infoId info) (refinerName r)]]) wl (refine E r p c (outcome info))) wl rs = wl @ new
      \<and> (\<forall>q\<in>set new. rank q < rank p)" for rs wl
  proof (induction rs arbitrary: wl)
    case Nil
    then show ?case by simp
  next
    case (Cons r rs)
    have "\<forall>q\<in>set (refine E r p c (outcome info)). rank q < rank p"
      by (simp add: refine_rank)
    from inner [OF this, of "infoId info" "refinerName r" wl]
    obtain new1 where n1: "foldl (\<lambda>wl refinedPrompt. wl @ [withProvenance refinedPrompt [Provenance p (infoId info) (refinerName r)]]) wl (refine E r p c (outcome info)) = wl @ new1"
      and r1: "\<forall>q\<in>set new1. rank q < rank p" by blast
    from Cons.IH [of "wl @ new1"] obtain new2 where
      n2: "foldl (\<lambda>wl r. foldl (\<lambda>wl refinedPrompt. wl @ [withProvenance refinedPrompt [Provenance p (infoId info) (refinerName r)]]) wl (refine E r p c (outcome info))) (wl @ new1) rs = (wl @ new1) @ new2"
      and r2: "\<forall>q\<in>set new2. rank q < rank p" by blast
    show ?case
      using n1 n2 r1 r2 by (intro exI [of _ "new1 @ new2"]) auto
  qed
  show ?thesis unfolding refinePrompts_def by (rule outer)
qed

lemma validateCompletion_worklist:
  "worklist (snd (validateCompletion E G p c t st)) = worklist st"
  by (simp add: validateCompletion_def Let_def split: prod.splits)

lemma processTests_worklist:
  "\<exists>new. worklist (processTests E G p t cs st) = worklist st @ new \<and> (\<forall>q\<in>set new. rank q < rank p)"
proof (induction cs arbitrary: st)
  case Nil
  then show ?case by simp
next
  case (Cons c cs)
  obtain info st1 where v: "validateCompletion E G p c t st = (info, st1)" by force
  with validateCompletion_worklist [of E G p c t st] have w1: "worklist st1 = worklist st" by simp
  define st2 where "st2 = (if outcome info = PASSED then st1\<lparr>generatedPassingTests := True\<rparr> else st1)"
  define st3 where "st3 = st2\<lparr>worklist := refinePrompts E p c info (worklist st2)\<rparr>"
  have w2: "worklist st2 = worklist st" by (simp add: st2_def w1)
  from refinePrompts_worklist [of E p c info "worklist st"] obtain new1 where
    n1: "refinePrompts E p c info (worklist st) = worklist st @ new1" and r1: "\<forall>q\<in>set new1. rank q < rank p"
    by blast
  have w3: "worklist st3 = worklist st @ new1" by (simp add: st3_def w2 n1)
  have eq: "processTests E G p t (c # cs) st = (if generatedPassingTests st3 then st3 else processTests E G p t cs st3)"
    by (simp add: v st2_def st3_def Let_def)
  show ?case
  proof (cases "generatedPassingTests st3")
    case True
    with eq w3 r1 show ?thesis by auto
  next
    case False
    from Cons.IH [of st3] obtain new2 where "worklist (processTests E G p t cs st3) = worklist st3 @ new2"
      and "\<forall>q\<in>set new2. rank q < rank p" by blast
    with False eq w3 r1 show ?thesis by (intro exI [of _ "new1 @ new2"]) auto
  qed
qed

lemma processCompletions_worklist:
  "\<exists>new. worklist (processCompletions E G p t rs st) = worklist st @ new \<and> (\<forall>q\<in>set new. rank q < rank p)"
proof (induction rs arbitrary: st)
  case Nil
  then show ?case by simp
next
  case (Cons r rs)
  define st1 where "st1 = (if length (extractTestFromRawCompletion r) > 0 then processTests E G p t (extractTestFromRawCompletion r) st else st)"
  have "\<exists>new. worklist st1 = worklist st @ new \<and> (\<forall>q\<in>set new. rank q < rank p)"
    using processTests_worklist [of E G p t "extractTestFromRawCompletion r" st] by (auto simp: st1_def)
  then obtain new1 where n1: "worklist st1 = worklist st @ new1" and r1: "\<forall>q\<in>set new1. rank q < rank p" by blast
  from Cons.IH [of st1] obtain new2 where "worklist (processCompletions E G p t rs st1) = worklist st1 @ new2"
      and "\<forall>q\<in>set new2. rank q < rank p" by blast
  with n1 r1 show ?case by (intro exI [of _ "new1 @ new2"]) (auto simp: st1_def Let_def)
qed

lemma step_worklist:
  assumes "step E G t st = Inr st'"
  shows "\<exists>new. worklist st' = butlast (worklist st) @ new \<and> (\<forall>q\<in>set new. rank q < rank (last (worklist st)))"
proof -
  define p where "p = last (worklist st)"
  define st1 where "st1 = st\<lparr>worklist := butlast (worklist st)\<rparr>"
  from assms obtain assembled where a: "assemble E p = Inr assembled"
    by (auto simp: step_def Let_def p_def split: sum.splits)
  show ?thesis
  proof (cases "map_of (generatedPrompts st1) assembled")
    case (Some prev)
    with a assms have "worklist st' = butlast (worklist st)"
      by (auto simp: step_def Let_def p_def st1_def)
    then show ?thesis by simp
  next
    case None
    define st3 where "st3 = st1\<lparr>generatedPrompts := generatedPrompts st1 @ [(assembled, p)],
        queries := queries st1 @ [(assembled, t)]\<rparr>"
    from processCompletions_worklist [of E G p t "completions G (length (queries st1)) assembled t" st3]
    obtain new where "worklist (processCompletions E G p t (completions G (length (queries st1)) assembled t) st3) = worklist st3 @ new"
      and "\<forall>q\<in>set new. rank q < rank p" by blast
    moreover from None a assms have "st' = (processCompletions E G p t (completions G (length (queries st1)) assembled t) st3)
        \<lparr>collector := recordPromptInfo p t [] (collector (processCompletions E G p t (completions G (length (queries st1)) assembled t) st3))\<rparr>"
      by (auto simp: step_def Let_def p_def st1_def st3_def)
    ultimately show ?thesis by (auto simp: st3_def st1_def p_def)
  qed
qed

lemma step_decreases:
  assumes "step E G t st = Inr st'" and "worklist st \<noteq> []"
  shows "(mset (map rank (worklist st')), mset (map rank (worklist st))) \<in> mult less_than"
proof -
  from step_worklist [OF assms(1)] obtain new where
    w: "worklist st' = butlast (worklist st) @ new" and r: "\<forall>q\<in>set new. rank q < rank (last (worklist st))"
    by blast
  from assms(2) have ws: "worklist st = butlast (worklist st) @ [last (worklist st)]" by simp
  have "(mset (map rank (butlast (worklist st))) + mset (map rank new),
        mset (map rank (butlast (worklist st))) + {#rank (last (worklist st))#}) \<in> mult less_than"
    by (rule one_step_implies_mult) (use r in auto)
  moreover have "mset (map rank (worklist st)) = mset (map rank (butlast (worklist st))) + {#rank (last (worklist st))#}"
    by (subst ws) simp
  ultimately show ?thesis by (simp add: w)
qed

termination run
proof (relation "inv_image (mult less_than) (\<lambda>(E, G, t, st). mset (map rank (worklist st)))", goal_cases)
  case 1
  show ?case by (simp add: wf_mult)
next
  case (2 E G t st st')
  from step_decreases [OF 2(2)] 2(1) show ?case by simp
qed

declare run.simps [simp del]

text \<open>\<open>generateAndValidateTests\<close>: one run of the worklist loop per temperature.\<close>

definition startRun :: "syntaxEnv \<Rightarrow> testGenerator \<Rightarrow> apiFunction \<Rightarrow> runState \<Rightarrow> runState" where
  "startRun E G fn st =
     (let snippets = (case snippetMap G (functionName fn) of None \<Rightarrow> [] | Some found \<Rightarrow> found);
          promptOptions = defaultPromptOptions
            \<lparr> templateFileName := Some (genTemplateFileName G),
              retryTemplateFileName := Some (genRetryTemplateFileName G) \<rparr>
      in st\<lparr> worklist := [newPrompt E fn snippets promptOptions],
             generatedPrompts := [],
             generatedPassingTests := False \<rparr>)"

fun forTemperatures ::
  "syntaxEnv \<Rightarrow> testGenerator \<Rightarrow> apiFunction \<Rightarrow> temperature list \<Rightarrow> runState \<Rightarrow> error + runState" where
  "forTemperatures E G fn [] st = Inr st"
| "forTemperatures E G fn (temperature # rest) st =
     (case run E G temperature (startRun E G fn st) of
        Inl e \<Rightarrow> Inl e
      | Inr st' \<Rightarrow> forTemperatures E G fn rest st')"

definition generateAndValidateTests ::
  "syntaxEnv \<Rightarrow> testGenerator \<Rightarrow> apiFunction \<Rightarrow> runState \<Rightarrow> error + runState" where
  "generateAndValidateTests E G fn st = forTemperatures E G fn (temperatures G) st"


section \<open>An environment for the examples\<close>

text \<open>
  Modelled from the spec: \<open>closeBrackets\<close> (module \<open>syntax\<close>) is not among the source
  files.  The model closes the brackets, parentheses and braces that the fragment leaves
  open, in the order that the source requires, and gives no result when a closing
  bracket does not match the bracket that is open.  A fragment whose brackets are
  balanced is returned as it is.
\<close>

fun pendingClosers :: "string \<Rightarrow> string \<Rightarrow> string option" where
  "pendingClosers [] pending = Some pending"
| "pendingClosers (c # cs) pending =
     (if c = CHR ''('' then pendingClosers cs (CHR '')'' # pending)
      else if c = CHR ''['' then pendingClosers cs (CHR '']'' # pending)
      else if c = CHR ''{'' then pendingClosers cs (CHR ''}'' # pending)
      else if c = CHR '')'' \<or> c = CHR '']'' \<or> c = CHR ''}''
      then (case pending of
              [] \<Rightarrow> None
            | d # ds \<Rightarrow> if d = c then pendingClosers cs ds else None)
      else pendingClosers cs pending)"

definition closeBracketsModel :: "string \<Rightarrow> string option" where
  "closeBracketsModel source = map_option (\<lambda>pending. source @ pending) (pendingClosers source [])"

text \<open>
  Modelled from the spec: \<open>sanitizePackageName\<close> (module \<open>exploreAPI\<close>) is not among
  the source files.  The tests expect \<open>zip-a-folder\<close> to become \<open>zip_a_folder\<close> and \<open>plus\<close>
  to stay as it is; the model replaces every hyphen by an underscore.
\<close>

definition sanitizeModel :: "string \<Rightarrow> string" where
  "sanitizeModel name = map (\<lambda>c. if c = CHR ''-'' then CHR ''_'' else c) name"

text \<open>
  The part of the template language that the templates of the repository use: a field
  name between triple braces stands for the value of the field (the empty text when
  the context has no such field), and any other text stands for itself.  An opening
  without a closing does not compile.
\<close>

function expandStash :: "string \<Rightarrow> (string \<times> string) list \<Rightarrow> string option" where
  "expandStash template context =
     (case firstIndex template ''{{{'' of
        None \<Rightarrow> Some template
      | Some i \<Rightarrow>
          (case firstIndex (drop (i + 3) template) ''}}}'' of
             None \<Rightarrow> None
           | Some j \<Rightarrow>
               (case expandStash (drop (i + 3 + j + 3) template) context of
                  None \<Rightarrow> None
                | Some rest \<Rightarrow>
                    Some (take i template @
                          (case map_of context (take j (drop (i + 3) template)) of
                             None \<Rightarrow> []
                           | Some v \<Rightarrow> v) @ rest))))"
  by pat_completeness auto
termination
proof (relation "measure (\<lambda>(template, context). length template)", goal_cases)
  case 1
  show ?case by simp
next
  case (2 template ctx i j)
  from firstIndex_bound [OF 2(1)] show ?case by simp
qed

declare expandStash.simps [simp del]

text \<open>The template \<open>templates/template.hb\<close> of the repository, as the tests read it.\<close>

definition templateText :: string where
  "templateText =
     ''Your task is to write a test for the following function:'' @ [nl] @
     ''```'' @ [nl] @
     ''{{{docComments}}}'' @ [nl] @
     ''{{{signature}}}'' @ [nl] @
     ''```'' @ [nl] @
     [nl] @
     ''{{{functionBody}}}'' @ [nl] @
     [nl] @
     ''{{{snippets}}}'' @ [nl] @
     [nl] @
     ''Please proceed by modifying the following code fragment:'' @ [nl] @
     ''```'' @ [nl] @
     ''{{{code}}}'' @ [nl] @
     ''``` '' @ [nl] @
     ''so that it becomes a test suite containing a few self-contained unit tests.  The tests should not rely on any '' @ [nl] @
     ''external resources. For example, a test should not attempt to access files that it does not create itself.'' @ [nl] @
     [nl] @
     ''Provide your answer as a fenced code block.''"

definition exampleEnv :: syntaxEnv where
  "exampleEnv =
     \<lparr> sanitizePackageName = sanitizeModel,
       trimAndCombineDocComment = (\<lambda>d. d),
       closeBrackets = closeBracketsModel,
       readFileSync = (\<lambda>name. if name = ''./templates/template.hb'' then Some templateText else None),
       handlebars = expandStash \<rparr>"

text \<open>The function \<open>plus(x, y)\<close> of the package \<open>plus\<close>, without doc comment and without
  implementation, and its first prompt.\<close>

definition plusFunction :: apiFunction where
  "plusFunction =
     \<lparr> packageName = ''plus'', accessPath = ''plus'', signature = ''plus(x, y)'',
       functionName = ''plus'',
       descriptor = \<lparr> docComment = None, implementation = [] \<rparr> \<rparr>"

definition plusOptions :: promptOptions where
  "plusOptions = defaultPromptOptions\<lparr>templateFileName := Some ''./templates/template.hb''\<rparr>"

definition plusPrompt :: prompt where
  "plusPrompt = newPrompt exampleEnv plusFunction [] plusOptions"

text \<open>A suite that is complete and starts with its own imports: the failing test of the
  tests of the retry refiner.\<close>

definition failingSuite :: string where
  "failingSuite =
     ''let mocha = require('mocha');'' @ [nl] @
     ''let assert = require('assert');'' @ [nl] @
     ''let plus = require('plus');'' @ [nl] @
     ''describe('test suite', function() {'' @ [nl] @
     ''    it('test case', function(done) {'' @ [nl] @
     ''        assert(plus(1, 1), 3);'' @ [nl] @
     ''    })'' @ [nl] @
     ''})''"

text \<open>The field \<open>code\<close> of the context that \<open>assemble\<close> hands to the template.\<close>

definition codeField :: "promptFields \<Rightarrow> string option" where
  "codeField f = map_of (templateFields f) ''code''"


section \<open>Test completion (C1)\<close>

lemma testCode_suite:
  assumes "includesStr body ''describe(''"
  shows "testCode f body stub =
     (if includesStr (firstLine body) ''require'' then body else pimports f @ [nl] @ body)"
  using assms by (simp add: testCode_def Let_def)

text \<open>
  C1, as stated, fails: a body that contains \<open>describe(\<close> and whose first line does not
  contain \<open>require\<close> gets the import block and a line feed in front of it.
\<close>

theorem C1_counterexample:
  "includesStr ''describe('s', function() {})'' ''describe('' \<and>
   completeTest exampleEnv plusPrompt ''describe('s', function() {})'' True
     = Some (''let mocha = require('mocha');'' @ [nl] @
             ''let assert = require('assert');'' @ [nl] @
             ''let plus = require('plus');'' @ [nl] @ [nl] @
             ''describe('s', function() {})'') \<and>
   completeTest exampleEnv plusPrompt ''describe('s', function() {})'' True
     \<noteq> Some ''describe('s', function() {})''"
  by code_simp

text \<open>
  C1 (amended): for every body that contains \<open>describe(\<close>, \<open>completeTest\<close> injects no suite
  header and no test-case header.  The text that it hands to \<open>closeBrackets\<close> is the body
  itself when the first line of the body contains \<open>require\<close>, and the import block, a line
  feed and the body otherwise; its result is that text with its brackets closed and a
  closing \<open>})})\<close> at its end laid out on two lines, and there is no result when
  \<open>closeBrackets\<close> gives none.
\<close>

theorem C1_suite_body:
  assumes "includesStr body ''describe(''"
  shows "completeTest E p body stubOutHeaders =
     map_option beautify
       (closeBrackets E
          (if includesStr (firstLine body) ''require'' then body
           else pimports (fieldsOf p) @ [nl] @ body))"
  using assms by (simp add: completeTest_def Let_def testCode_suite)

theorem C1_suite_body_witness:
  "includesStr failingSuite ''describe('' \<and>
   completeTest exampleEnv plusPrompt failingSuite True = Some failingSuite"
proof -
  have a: "includesStr failingSuite ''describe(''" by code_simp
  have b: "includesStr (firstLine failingSuite) ''require''" by code_simp
  have c: "closeBrackets exampleEnv failingSuite = Some failingSuite" by code_simp
  have d: "beautify failingSuite = failingSuite" by code_simp
  from C1_suite_body [OF a, of exampleEnv plusPrompt True] a b c d show ?thesis by simp
qed


section \<open>The code field of the first prompt (C5)\<close>

text \<open>
  C5, as stated, fails: the import block ends with one line feed and the suite header
  follows it at once, so the code field has no blank line between the two.
\<close>

theorem C5_counterexample:
  "codeField (fieldsOf (newPrompt exampleEnv plusFunction [] defaultPromptOptions)) \<noteq>
     Some (''let mocha = require('mocha');'' @ [nl] @
           ''let assert = require('assert');'' @ [nl] @
           ''let plus = require('plus');'' @ [nl] @ [nl] @
           ''describe('test plus', function() {'' @ [nl] @
           ''    it('test plus', function(done) {'' @ [nl])"
  by code_simp

text \<open>
  C5 (amended): for a prompt built for a function of the package \<open>plus\<close> with the access
  path \<open>plus\<close> (a package name that \<open>sanitizePackageName\<close> leaves as it is), whatever its
  snippets and options, the code field of the assembled prompt is the three import lines,
  the suite header and the test-case header, each ended by one line feed, with no blank
  line between the import block and the suite header.
\<close>

theorem C5_code_field:
  assumes "sanitizePackageName E ''plus'' = ''plus''"
    and "packageName fn = ''plus''" and "accessPath fn = ''plus''"
  shows "codeField (fieldsOf (newPrompt E fn snippets opts)) =
     Some (''let mocha = require('mocha');'' @ [nl] @
           ''let assert = require('assert');'' @ [nl] @
           ''let plus = require('plus');'' @ [nl] @
           ''describe('test plus', function() {'' @ [nl] @
           ''    it('test plus', function(done) {'' @ [nl])"
  using assms by (simp add: codeField_def templateFields_def newPrompt_def newFields_def Let_def)

theorem C5_code_field_witness:
  "sanitizePackageName exampleEnv ''plus'' = ''plus'' \<and> packageName plusFunction = ''plus''
   \<and> accessPath plusFunction = ''plus''
   \<and> codeField (fieldsOf (newPrompt exampleEnv plusFunction [] defaultPromptOptions)) =
     Some (''let mocha = require('mocha');'' @ [nl] @
           ''let assert = require('assert');'' @ [nl] @
           ''let plus = require('plus');'' @ [nl] @
           ''describe('test plus', function() {'' @ [nl] @
           ''    it('test plus', function(done) {'' @ [nl])"
proof -
  have a: "sanitizePackageName exampleEnv ''plus'' = ''plus''"
    by (simp add: exampleEnv_def sanitizeModel_def)
  have b: "packageName plusFunction = ''plus''" and c: "accessPath plusFunction = ''plus''"
    by (simp_all add: plusFunction_def)
  from C5_code_field [OF a b c, of "[]" defaultPromptOptions] a b c show ?thesis by simp
qed


section \<open>What the loops leave unchanged\<close>

lemma recordTestInfo_promptInfos:
  "promptInfos (snd (recordTestInfo source p path c)) = promptInfos c"
  by (simp add: recordTestInfo_def Let_def split: option.splits)

lemma recordTestResult_promptInfos:
  "promptInfos (recordTestResult info t result c) = promptInfos c"
  by (simp add: recordTestResult_def)

lemma validateCompletion_frame:
  "worklist (snd (validateCompletion E G p c t st)) = worklist st"
  "generatedPrompts (snd (validateCompletion E G p c t st)) = generatedPrompts st"
  "generatedPassingTests (snd (validateCompletion E G p c t st)) = generatedPassingTests st"
  "queries (snd (validateCompletion E G p c t st)) = queries st"
  "promptInfos (collector (snd (validateCompletion E G p c t st))) = promptInfos (collector st)"
proof -
  define source where "source = completeTest E p c True"
  obtain info c1 where r: "recordTestInfo (case source of None \<Rightarrow> c | Some src \<Rightarrow> src) p
      (accessPath (pfun (fieldsOf p))) (collector st) = (info, c1)" by force
  from recordTestInfo_promptInfos [of "case source of None \<Rightarrow> c | Some src \<Rightarrow> src" p
      "accessPath (pfun (fieldsOf p))" "collector st"] r
  have p1: "promptInfos c1 = promptInfos (collector st)" by simp
  show "worklist (snd (validateCompletion E G p c t st)) = worklist st"
    unfolding validateCompletion_def Let_def source_def [symmetric] r prod.case by simp
  show "generatedPrompts (snd (validateCompletion E G p c t st)) = generatedPrompts st"
    unfolding validateCompletion_def Let_def source_def [symmetric] r prod.case by simp
  show "generatedPassingTests (snd (validateCompletion E G p c t st)) = generatedPassingTests st"
    unfolding validateCompletion_def Let_def source_def [symmetric] r prod.case by simp
  show "queries (snd (validateCompletion E G p c t st)) = queries st"
    unfolding validateCompletion_def Let_def source_def [symmetric] r prod.case by simp
  show "promptInfos (collector (snd (validateCompletion E G p c t st))) = promptInfos (collector st)"
    unfolding validateCompletion_def Let_def source_def [symmetric] r prod.case
    by (simp add: p1 recordTestResult_promptInfos)
qed

lemma processTests_preserves:
  assumes v: "\<And>c st. P st \<Longrightarrow> P (snd (validateCompletion E G p c t st))"
    and f: "\<And>st. P st \<Longrightarrow> P (st\<lparr>generatedPassingTests := True\<rparr>)"
    and w: "\<And>st wl. P st \<Longrightarrow> P (st\<lparr>worklist := wl\<rparr>)"
  shows "P st \<Longrightarrow> P (processTests E G p t cs st)"
proof (induction cs arbitrary: st)
  case Nil
  then show ?case by simp
next
  case (Cons c cs)
  obtain info st1 where vc: "validateCompletion E G p c t st = (info, st1)" by force
  from v [OF Cons.prems, of c] vc have "P st1" by simp
  define st2 where "st2 = (if outcome info = PASSED then st1\<lparr>generatedPassingTests := True\<rparr> else st1)"
  from \<open>P st1\<close> have "P st2" by (simp add: st2_def f)
  define st3 where "st3 = st2\<lparr>worklist := refinePrompts E p c info (worklist st2)\<rparr>"
  from \<open>P st2\<close> have "P st3" by (simp add: st3_def w)
  have "processTests E G p t (c # cs) st
      = (if generatedPassingTests st3 then st3 else processTests E G p t cs st3)"
    by (simp add: vc st2_def st3_def Let_def)
  with \<open>P st3\<close> Cons.IH [of st3] show ?case by simp
qed

lemma processCompletions_preserves:
  assumes v: "\<And>c st. P st \<Longrightarrow> P (snd (validateCompletion E G p c t st))"
    and f: "\<And>st. P st \<Longrightarrow> P (st\<lparr>generatedPassingTests := True\<rparr>)"
    and w: "\<And>st wl. P st \<Longrightarrow> P (st\<lparr>worklist := wl\<rparr>)"
  shows "P st \<Longrightarrow> P (processCompletions E G p t rs st)"
proof (induction rs arbitrary: st)
  case Nil
  then show ?case by simp
next
  case (Cons r rs)
  have "P (processTests E G p t (extractTestFromRawCompletion r) st)"
    by (rule processTests_preserves [of P E G p t, OF v f w Cons.prems])
  with Cons.prems Cons.IH show ?case by (simp add: Let_def)
qed

lemma processCompletions_frame:
  "generatedPrompts (processCompletions E G p t rs st) = generatedPrompts st"
  "queries (processCompletions E G p t rs st) = queries st"
  "promptInfos (collector (processCompletions E G p t rs st)) = promptInfos (collector st)"
proof -
  show "generatedPrompts (processCompletions E G p t rs st) = generatedPrompts st"
    by (rule processCompletions_preserves [where P = "\<lambda>s. generatedPrompts s = generatedPrompts st"])
      (simp_all add: validateCompletion_frame)
  show "queries (processCompletions E G p t rs st) = queries st"
    by (rule processCompletions_preserves [where P = "\<lambda>s. queries s = queries st"])
      (simp_all add: validateCompletion_frame)
  show "promptInfos (collector (processCompletions E G p t rs st)) = promptInfos (collector st)"
    by (rule processCompletions_preserves
        [where P = "\<lambda>s. promptInfos (collector s) = promptInfos (collector st)"])
      (simp_all add: validateCompletion_frame)
qed

section \<open>One pass of the worklist loop\<close>

lemma map_of_absorb:
  "map_of (map (\<lambda>(k, q). if k = a then (k, f q) else (k, q)) xs) a = map_option f (map_of xs a)"
  by (induction xs) auto

lemma keys_absorb:
  "map fst (map (\<lambda>(k, q). if k = a then (k, f q) else (k, q)) xs) = map fst xs"
  by (induction xs) auto

lemma step_duplicate:
  assumes "assemble E (last (worklist st)) = Inr assembled"
    and "map_of (generatedPrompts st) assembled = Some previous"
  shows "step E G t st =
     Inr (st\<lparr> worklist := butlast (worklist st),
              generatedPrompts :=
                map (\<lambda>(k, q). if k = assembled
                       then (k, withProvenance q (provenanceOf (last (worklist st))))
                       else (k, q)) (generatedPrompts st) \<rparr>)"
  using assms by (simp add: step_def Let_def)

lemma step_fresh:
  assumes "assemble E (last (worklist st)) = Inr assembled"
    and "map_of (generatedPrompts st) assembled = None"
  shows "\<exists>st'. step E G t st = Inr st'
     \<and> queries st' = queries st @ [(assembled, t)]
     \<and> generatedPrompts st' = generatedPrompts st @ [(assembled, last (worklist st))]
     \<and> promptInfos (collector st') = promptInfos (collector st) @ [(last (worklist st), t, [])]"
  using assms by (simp add: step_def Let_def processCompletions_frame recordPromptInfo_def)

lemma run_worklist_empty:
  "run E G t st = Inr st' \<Longrightarrow> worklist st' = []"
proof (induction E G t st rule: run.induct)
  case (1 E G t st)
  show ?case
  proof (cases "length (worklist st) > 0")
    case True
    with "1.prems" obtain s where s: "step E G t st = Inr s" and r: "run E G t s = Inr st'"
      by (subst (asm) run.simps) (auto split: sum.splits)
    from "1.IH" [OF True s r] show ?thesis .
  next
    case False
    with "1.prems" show ?thesis by (subst (asm) run.simps) simp
  qed
qed


section \<open>Deduplication of prompts (C3)\<close>

text \<open>The invariant of the worklist loop: the queries of the run, those after the queries
  \<open>before\<close> it, are for different texts, and these texts are the keys of the map of
  generated prompts.\<close>

definition queriedOnce :: "(string \<times> temperature) list \<Rightarrow> runState \<Rightarrow> bool" where
  "queriedOnce before st =
     (take (length before) (queries st) = before
      \<and> distinct (map fst (drop (length before) (queries st)))
      \<and> set (map fst (drop (length before) (queries st))) = set (map fst (generatedPrompts st)))"

lemma map_of_None_keys: "map_of xs a = None \<longleftrightarrow> a \<notin> set (map fst xs)"
  by (simp add: map_of_eq_None_iff)

lemma step_queriedOnce:
  assumes "queriedOnce before st" and "step E G t st = Inr st'"
  shows "queriedOnce before st'"
proof -
  from assms(2) obtain assembled where a: "assemble E (last (worklist st)) = Inr assembled"
    by (auto simp: step_def Let_def split: sum.splits)
  show ?thesis
  proof (cases "map_of (generatedPrompts st) assembled")
    case (Some previous)
    from step_duplicate [OF a Some, of G t] assms show ?thesis
      by (auto simp: queriedOnce_def keys_absorb simp del: map_map)
  next
    case None
    from step_fresh [OF a None, of G t] assms(2) have q: "queries st' = queries st @ [(assembled, t)]"
      and g: "generatedPrompts st' = generatedPrompts st @ [(assembled, last (worklist st))]"
      by auto
    from assms(1) have l: "length before \<le> length (queries st)"
      by (metis queriedOnce_def length_take min.cobounded1 min.commute)
    from None have "assembled \<notin> set (map fst (generatedPrompts st))"
      by (simp add: map_of_eq_None_iff)
    with assms(1) l show ?thesis by (auto simp: queriedOnce_def q g)
  qed
qed

lemma run_queriedOnce:
  "queriedOnce before st \<Longrightarrow> run E G t st = Inr st' \<Longrightarrow> queriedOnce before st'"
proof (induction E G t st rule: run.induct)
  case (1 E G t st)
  show ?case
  proof (cases "length (worklist st) > 0")
    case True
    with "1.prems"(2) obtain s where s: "step E G t st = Inr s" and r: "run E G t s = Inr st'"
      by (subst (asm) run.simps) (auto split: sum.splits)
    from step_queriedOnce [OF "1.prems"(1) s] have "queriedOnce before s" .
    from "1.IH" [OF True s this r] show ?thesis .
  next
    case False
    with "1.prems" show ?thesis by (subst (asm) run.simps) simp
  qed
qed

text \<open>
  A prompt without its provenance, and the records of the collector without the
  provenance of the prompts that they name.  These prompts are objects of the run, and
  the provenance that they show is that of the objects; the pass that absorbs provenance
  calls no method of the collector, so its records are the same up to that.
\<close>

fun withoutProvenance :: "prompt \<Rightarrow> prompt" where
  "withoutProvenance (PromptObj f pr) = PromptObj f []"
| "withoutProvenance (RetryPromptObj f pr prev body err) =
     RetryPromptObj f [] (withoutProvenance prev) body err"

definition recordsOf :: "collector \<Rightarrow> collector" where
  "recordsOf c =
     c\<lparr> tests := map (\<lambda>i. i\<lparr>prompts := map withoutProvenance (prompts i)\<rparr>) (tests c),
        promptInfos := map (\<lambda>(p, temperature, completionSet).
                              (withoutProvenance p, temperature, completionSet))
                         (promptInfos c) \<rparr>"

lemma provenanceOf_withProvenance:
  "provenanceOf (withProvenance p infos) = provenanceOf p @ infos"
  by (rule fieldsOf.cases [of p]) simp_all

lemma withoutProvenance_withProvenance:
  "withoutProvenance (withProvenance p infos) = withoutProvenance p"
  by (rule fieldsOf.cases [of p]) simp_all

lemma map_of_absorb_other:
  "k \<noteq> a \<Longrightarrow> map_of (map (\<lambda>(k, q). if k = a then (k, f q) else (k, q)) xs) k = map_of xs k"
  by (induction xs) auto

text \<open>
  C3: within one run (a state whose map of generated prompts is empty is the start of
  one), the queries that the run puts to the model are for pairwise different assembled
  texts, which are the keys of the map.  When the text of the popped prompt is a key of
  the map, the pass succeeds without a query and without a validation, and the collector
  gets no record and no change to one: the popped prompt leaves the worklist, and the
  prompt held for the text has afterwards its own provenance records followed by those
  of the popped prompt, and is otherwise as it was; the keys, and the prompts held for
  the other texts, stay as they are.
\<close>

theorem C3_one_query_per_text:
  "(generatedPrompts st = [] \<and> run E G t st = Inr st' \<longrightarrow>
      (\<exists>new. queries st' = queries st @ new \<and> distinct (map fst new)
         \<and> set (map fst new) = set (map fst (generatedPrompts st'))))
   \<and> (assemble E (last (worklist st)) = Inr assembled
        \<and> map_of (generatedPrompts st) assembled = Some previous \<longrightarrow>
      (\<exists>st'' stored. step E G t st = Inr st''
         \<and> queries st'' = queries st
         \<and> validations st'' = validations st
         \<and> recordsOf (collector st'') = recordsOf (collector st)
         \<and> worklist st'' = butlast (worklist st)
         \<and> map_of (generatedPrompts st'') assembled = Some stored
         \<and> provenanceOf stored = provenanceOf previous @ provenanceOf (last (worklist st))
         \<and> withoutProvenance stored = withoutProvenance previous
         \<and> map fst (generatedPrompts st'') = map fst (generatedPrompts st)
         \<and> (\<forall>other. other \<noteq> assembled \<longrightarrow>
               map_of (generatedPrompts st'') other = map_of (generatedPrompts st) other)))"
proof (intro conjI impI)
  assume a: "generatedPrompts st = [] \<and> run E G t st = Inr st'"
  then have "queriedOnce (queries st) st" by (simp add: queriedOnce_def)
  from run_queriedOnce [OF this conjunct2 [OF a]] have q: "queriedOnce (queries st) st'" .
  show "\<exists>new. queries st' = queries st @ new \<and> distinct (map fst new)
         \<and> set (map fst new) = set (map fst (generatedPrompts st'))"
  proof (intro exI [of _ "drop (length (queries st)) (queries st')"] conjI)
    from q show "queries st' = queries st @ drop (length (queries st)) (queries st')"
      by (metis queriedOnce_def append_take_drop_id)
  qed (use q in \<open>simp_all add: queriedOnce_def\<close>)
next
  assume "assemble E (last (worklist st)) = Inr assembled
        \<and> map_of (generatedPrompts st) assembled = Some previous"
  then have a: "assemble E (last (worklist st)) = Inr assembled"
    and m: "map_of (generatedPrompts st) assembled = Some previous" by simp_all
  define stored where "stored = withProvenance previous (provenanceOf (last (worklist st)))"
  define st'' where "st'' = st\<lparr> worklist := butlast (worklist st),
              generatedPrompts :=
                map (\<lambda>(k, q). if k = assembled
                       then (k, withProvenance q (provenanceOf (last (worklist st))))
                       else (k, q)) (generatedPrompts st) \<rparr>"
  from step_duplicate [OF a m, of G t] have s: "step E G t st = Inr st''"
    by (simp add: st''_def)
  have 1: "queries st'' = queries st" "validations st'' = validations st"
    "recordsOf (collector st'') = recordsOf (collector st)"
    "worklist st'' = butlast (worklist st)"
    by (simp_all add: st''_def)
  have 2: "map_of (generatedPrompts st'') assembled = Some stored"
    by (simp add: st''_def stored_def map_of_absorb m)
  have 3: "provenanceOf stored = provenanceOf previous @ provenanceOf (last (worklist st))"
    by (simp add: stored_def provenanceOf_withProvenance)
  have 4: "withoutProvenance stored = withoutProvenance previous"
    by (simp add: stored_def withoutProvenance_withProvenance)
  have 5: "map fst (generatedPrompts st'') = map fst (generatedPrompts st)"
    by (simp add: st''_def keys_absorb del: map_map)
  have 6: "\<forall>other. other \<noteq> assembled \<longrightarrow>
               map_of (generatedPrompts st'') other = map_of (generatedPrompts st) other"
    by (simp add: st''_def map_of_absorb_other)
  from s 1 2 3 4 5 6
  show "\<exists>st'' stored. step E G t st = Inr st''
         \<and> queries st'' = queries st
         \<and> validations st'' = validations st
         \<and> recordsOf (collector st'') = recordsOf (collector st)
         \<and> worklist st'' = butlast (worklist st)
         \<and> map_of (generatedPrompts st'') assembled = Some stored
         \<and> provenanceOf stored = provenanceOf previous @ provenanceOf (last (worklist st))
         \<and> withoutProvenance stored = withoutProvenance previous
         \<and> map fst (generatedPrompts st'') = map fst (generatedPrompts st)
         \<and> (\<forall>other. other \<noteq> assembled \<longrightarrow>
               map_of (generatedPrompts st'') other = map_of (generatedPrompts st) other)"
    by blast
qed

section \<open>The completions handed to the collector (C9)\<close>

lemma step_promptInfos:
  assumes "step E G t st = Inr st'"
  shows "\<exists>new. promptInfos (collector st') = promptInfos (collector st) @ new
     \<and> (\<forall>x\<in>set new. snd (snd x) = [])"
proof -
  from assms obtain assembled where a: "assemble E (last (worklist st)) = Inr assembled"
    by (auto simp: step_def Let_def split: sum.splits)
  show ?thesis
  proof (cases "map_of (generatedPrompts st) assembled")
    case (Some previous)
    from step_duplicate [OF a Some, of G t] assms show ?thesis by auto
  next
    case None
    from step_fresh [OF a None, of G t] assms show ?thesis by auto
  qed
qed

lemma run_promptInfos:
  "run E G t st = Inr st' \<Longrightarrow>
     \<exists>new. promptInfos (collector st') = promptInfos (collector st) @ new
       \<and> (\<forall>x\<in>set new. snd (snd x) = [])"
proof (induction E G t st rule: run.induct)
  case (1 E G t st)
  show ?case
  proof (cases "length (worklist st) > 0")
    case True
    with "1.prems" obtain s where s: "step E G t st = Inr s" and r: "run E G t s = Inr st'"
      by (subst (asm) run.simps) (auto split: sum.splits)
    from step_promptInfos [OF s] obtain n1 where
      n1: "promptInfos (collector s) = promptInfos (collector st) @ n1" "\<forall>x\<in>set n1. snd (snd x) = []"
      by blast
    from "1.IH" [OF True s r] obtain n2 where
      n2: "promptInfos (collector st') = promptInfos (collector s) @ n2" "\<forall>x\<in>set n2. snd (snd x) = []"
      by blast
    from n1 n2 show ?thesis by (intro exI [of _ "n1 @ n2"]) auto
  next
    case False
    with "1.prems" show ?thesis by (subst (asm) run.simps) simp
  qed
qed

text \<open>
  C9: when the text of the popped prompt is not a key of the map of generated prompts,
  the pass hands the collector one prompt record, for the popped prompt and the
  temperature, with the empty set of completions, whatever completions the model
  returned; and every prompt record that a run hands to the collector has the empty set
  of completions.
\<close>

theorem C9_empty_completion_set:
  "(assemble E (last (worklist st)) = Inr assembled
      \<and> map_of (generatedPrompts st) assembled = None \<longrightarrow>
     (\<exists>st'. step E G t st = Inr st'
        \<and> promptInfos (collector st')
            = promptInfos (collector st) @ [(last (worklist st), t, [])]))
   \<and> (run E G t st = Inr st'' \<longrightarrow>
     (\<exists>new. promptInfos (collector st'') = promptInfos (collector st) @ new
        \<and> (\<forall>x\<in>set new. snd (snd x) = [])))"
proof (intro conjI impI)
  assume "assemble E (last (worklist st)) = Inr assembled
      \<and> map_of (generatedPrompts st) assembled = None"
  then have a: "assemble E (last (worklist st)) = Inr assembled"
    and m: "map_of (generatedPrompts st) assembled = None" by simp_all
  from step_fresh [OF a m, of G t]
  show "\<exists>st'. step E G t st = Inr st'
        \<and> promptInfos (collector st')
            = promptInfos (collector st) @ [(last (worklist st), t, [])]" by auto
next
  assume "run E G t st = Inr st''"
  then show "\<exists>new. promptInfos (collector st'') = promptInfos (collector st) @ new
        \<and> (\<forall>x\<in>set new. snd (snd x) = [])" by (rule run_promptInfos)
qed


section \<open>Lineages of refinement (C6, C10)\<close>

text \<open>A hop of a lineage: the refiner, the completion and the outcome it was given, the
  test id of the provenance record, and the prompt that came out.\<close>

type_synonym hop = "refiner \<times> string \<times> testOutcome \<times> nat \<times> prompt"

fun isLineage :: "syntaxEnv \<Rightarrow> prompt \<Rightarrow> hop list \<Rightarrow> bool" where
  "isLineage E p [] = True"
| "isLineage E p ((r, completion, result, tid, q) # rest) =
     (q \<in> set (map (\<lambda>refinedPrompt.
                      withProvenance refinedPrompt [Provenance p tid (refinerName r)])
                 (refine E r p completion result))
      \<and> isLineage E q rest)"

definition hopsOf :: "refiner \<Rightarrow> hop list \<Rightarrow> nat" where
  "hopsOf r hops = length (filter (\<lambda>h. fst h = r) hops)"

lemma fieldsOf_withProvenance [simp]: "fieldsOf (withProvenance p infos) = fieldsOf p"
  by (rule fieldsOf.cases [of p]) simp_all

lemma isRetryPrompt_withProvenance [simp]: "isRetryPrompt (withProvenance p infos) = isRetryPrompt p"
  by (rule fieldsOf.cases [of p]) simp_all

text \<open>What one refinement does to the flags.\<close>

lemma refine_effect:
  "refine E r p c out = [] \<or>
   (\<exists>q. refine E r p c out = [q] \<and>
      (case r of
         SnippetIncluder \<Rightarrow>
           \<not> includeSnippets (options (fieldsOf p)) \<and> \<not> isRetryPrompt q
           \<and> options (fieldsOf q) = (options (fieldsOf p))\<lparr>includeSnippets := True\<rparr>
       | DocCommentIncluder \<Rightarrow>
           \<not> includeDocComment (options (fieldsOf p)) \<and> \<not> isRetryPrompt q
           \<and> options (fieldsOf q) = (options (fieldsOf p))\<lparr>includeDocComment := True\<rparr>
       | FunctionBodyIncluder \<Rightarrow>
           \<not> includeFunctionBody (options (fieldsOf p)) \<and> \<not> isRetryPrompt q
           \<and> options (fieldsOf q) = (options (fieldsOf p))\<lparr>includeFunctionBody := True\<rparr>
       | RetryWithError \<Rightarrow>
           \<not> isRetryPrompt p \<and> isRetryPrompt q
           \<and> options (fieldsOf q) = options (fieldsOf p)))"
proof (cases r)
  case SnippetIncluder
  then show ?thesis by (simp add: newPrompt_def)
next
  case RetryWithError
  then show ?thesis by (cases out) (simp_all add: newRetryPrompt_def)
next
  case DocCommentIncluder
  then show ?thesis by (simp add: newPrompt_def)
next
  case FunctionBodyIncluder
  then show ?thesis by (simp add: newPrompt_def)
qed

definition hopBound :: "refiner \<Rightarrow> prompt \<Rightarrow> nat" where
  "hopBound r p =
     (case r of
        SnippetIncluder \<Rightarrow> if includeSnippets (options (fieldsOf p)) then 0 else 1
      | DocCommentIncluder \<Rightarrow> if includeDocComment (options (fieldsOf p)) then 0 else 1
      | FunctionBodyIncluder \<Rightarrow> if includeFunctionBody (options (fieldsOf p)) then 0 else 1
      | RetryWithError \<Rightarrow> unsetFlags (options (fieldsOf p)) + (if isRetryPrompt p then 0 else 1))"

lemma hop_bound_step:
  assumes "refine E r p c out = [q0]"
  shows "(if r = r' then 1 else 0) + hopBound r' (withProvenance q0 infos) \<le> hopBound r' p"
proof -
  from refine_effect [of E r p c out] assms have e:
    "case r of
         SnippetIncluder \<Rightarrow>
           \<not> includeSnippets (options (fieldsOf p)) \<and> \<not> isRetryPrompt q0
           \<and> options (fieldsOf q0) = (options (fieldsOf p))\<lparr>includeSnippets := True\<rparr>
       | DocCommentIncluder \<Rightarrow>
           \<not> includeDocComment (options (fieldsOf p)) \<and> \<not> isRetryPrompt q0
           \<and> options (fieldsOf q0) = (options (fieldsOf p))\<lparr>includeDocComment := True\<rparr>
       | FunctionBodyIncluder \<Rightarrow>
           \<not> includeFunctionBody (options (fieldsOf p)) \<and> \<not> isRetryPrompt q0
           \<and> options (fieldsOf q0) = (options (fieldsOf p))\<lparr>includeFunctionBody := True\<rparr>
       | RetryWithError \<Rightarrow>
           \<not> isRetryPrompt p \<and> isRetryPrompt q0
           \<and> options (fieldsOf q0) = options (fieldsOf p)"
    by simp
  show ?thesis
    using e by (cases r; cases r') (simp_all add: hopBound_def unsetFlags_def)
qed

lemma lineage_hops:
  "isLineage E p hops \<Longrightarrow> hopsOf r' hops \<le> hopBound r' p"
proof (induction hops arbitrary: p)
  case Nil
  then show ?case by (simp add: hopsOf_def)
next
  case (Cons h hops)
  obtain r c out tid q where h: "h = (r, c, out, tid, q)" by (cases h) auto
  from Cons.prems h have m: "q \<in> set (map (\<lambda>refinedPrompt.
      withProvenance refinedPrompt [Provenance p tid (refinerName r)]) (refine E r p c out))"
    and l: "isLineage E q hops" by simp_all
  from refine_cases [of E r p c out] m obtain q0 where q0: "refine E r p c out = [q0]"
    and q: "q = withProvenance q0 [Provenance p tid (refinerName r)]" by auto
  from hop_bound_step [OF q0, of r' "[Provenance p tid (refinerName r)]"] q
  have "(if r = r' then 1 else 0) + hopBound r' q \<le> hopBound r' p" by simp
  moreover from Cons.IH [OF l] have "hopsOf r' hops \<le> hopBound r' q" .
  moreover have "hopsOf r' (h # hops) = (if r = r' then 1 else 0) + hopsOf r' hops"
    by (simp add: hopsOf_def h)
  ultimately show ?case by simp
qed

lemma lineage_length:
  "isLineage E p hops \<Longrightarrow> length hops \<le> rank p"
proof (induction hops arbitrary: p)
  case Nil
  then show ?case by simp
next
  case (Cons h hops)
  obtain r c out tid q where h: "h = (r, c, out, tid, q)" by (cases h) auto
  from Cons.prems h have m: "q \<in> set (map (\<lambda>refinedPrompt.
      withProvenance refinedPrompt [Provenance p tid (refinerName r)]) (refine E r p c out))"
    and l: "isLineage E q hops" by simp_all
  from m obtain q0 where "q0 \<in> set (refine E r p c out)"
    and "q = withProvenance q0 [Provenance p tid (refinerName r)]" by auto
  with refine_rank [of q0 E r p c out] have "rank q < rank p" by simp
  with Cons.IH [OF l] show ?case by simp
qed

lemma rank_le: "rank p \<le> 7"
  by (simp add: rank_def unsetFlags_def)

lemma hopBound_le: "hopBound r p \<le> (if r = RetryWithError then 4 else 1)"
  by (cases r) (simp_all add: hopBound_def unsetFlags_def)

text \<open>The lineage that starts at a prompt and takes the listed refinements one after the
  other, as far as they fire.\<close>

fun follow :: "syntaxEnv \<Rightarrow> prompt \<Rightarrow> (refiner \<times> string \<times> testOutcome \<times> nat) list \<Rightarrow> hop list" where
  "follow E p [] = []"
| "follow E p ((r, completion, result, tid) # rest) =
     (case refine E r p completion result of
        [] \<Rightarrow> []
      | refinedPrompt # others \<Rightarrow>
          (let q = withProvenance refinedPrompt [Provenance p tid (refinerName r)]
           in (r, completion, result, tid, q) # follow E q rest))"

definition snippetPrompt :: prompt where
  "snippetPrompt = newPrompt exampleEnv plusFunction [''plus(1, 2)''] plusOptions"

definition fullFunction :: apiFunction where
  "fullFunction = plusFunction\<lparr>descriptor :=
     \<lparr> docComment = Some ''adds'', implementation = ''x + y'' \<rparr>\<rparr>"

definition fullPrompt :: prompt where
  "fullPrompt = newPrompt exampleEnv fullFunction [''plus(1, 2)''] plusOptions"

text \<open>The prompt that retries the failing test \<open>a\<close> of that prompt.\<close>

definition retryOfFull :: prompt where
  "retryOfFull = newRetryPrompt exampleEnv fullPrompt ''a'' ''e''"

text \<open>
  C6, as stated, fails in its last part: a lineage can hold two retry hops.  A retry
  prompt has the options of the prompt it retries, so the snippet refiner fires on it and
  yields a plain prompt, and the retry refiner fires on that prompt again.
\<close>

theorem C6_counterexample:
  "isLineage exampleEnv snippetPrompt
     (follow exampleEnv snippetPrompt
        [(RetryWithError, ''a'', FAILED ''e1'', 0),
         (SnippetIncluder, ''b'', FAILED ''e2'', 1),
         (RetryWithError, ''c'', FAILED ''e3'', 2)])
   \<and> hopsOf RetryWithError
     (follow exampleEnv snippetPrompt
        [(RetryWithError, ''a'', FAILED ''e1'', 0),
         (SnippetIncluder, ''b'', FAILED ''e2'', 1),
         (RetryWithError, ''c'', FAILED ''e3'', 2)]) = 2"
  by code_simp

text \<open>
  C6 (amended): \<open>RetryWithError.refine(original, body, outcome)\<close> returns exactly one
  \<open>RetryPrompt\<close>, which wraps the original prompt, the failing body and the message of the
  outcome, when the outcome is FAILED and the original is not a \<open>RetryPrompt\<close>, and the
  empty list otherwise.  So a retry prompt is never itself retried, with whatever
  provenance, body and outcome.  (A lineage can still hold several retry hops.)
\<close>

theorem C6_retry_with_error:
  "(\<not> isRetryPrompt original \<longrightarrow>
      refine E RetryWithError original body (FAILED message) =
        [RetryPromptObj
           (newFields E (pfun (fieldsOf original)) (usageSnippets (fieldsOf original))
              (options (fieldsOf original)))
           [] original body message])
   \<and> (isRetryPrompt original \<or> (\<forall>message. result \<noteq> FAILED message) \<longrightarrow>
      refine E RetryWithError original body result = [])
   \<and> (\<forall>q\<in>set (refine E RetryWithError original body result).
        isRetryPrompt q \<and> refine E RetryWithError (withProvenance q infos) body' result' = [])"
proof (intro conjI impI ballI)
  assume "\<not> isRetryPrompt original"
  then show "refine E RetryWithError original body (FAILED message) =
        [RetryPromptObj
           (newFields E (pfun (fieldsOf original)) (usageSnippets (fieldsOf original))
              (options (fieldsOf original)))
           [] original body message]"
    by (simp add: newRetryPrompt_def)
next
  assume "isRetryPrompt original \<or> (\<forall>message. result \<noteq> FAILED message)"
  then show "refine E RetryWithError original body result = []"
    by (cases result) auto
next
  fix q
  assume "q \<in> set (refine E RetryWithError original body result)"
  with refine_effect [of E RetryWithError original body result]
  show "isRetryPrompt q" by (auto simp del: refine.simps)
  then show "refine E RetryWithError (withProvenance q infos) body' result' = []" by simp
qed

theorem C6_retry_with_error_witness:
  "\<not> isRetryPrompt plusPrompt
   \<and> refine exampleEnv RetryWithError plusPrompt failingSuite (FAILED ''expected 2 to equal 3'') =
       [RetryPromptObj (fieldsOf plusPrompt) [] plusPrompt failingSuite ''expected 2 to equal 3'']
   \<and> refine exampleEnv RetryWithError plusPrompt failingSuite PASSED = []
   \<and> refine exampleEnv RetryWithError
        (RetryPromptObj (fieldsOf plusPrompt) [] plusPrompt failingSuite ''expected 2 to equal 3'')
        failingSuite (FAILED ''expected 2 to equal 3'') = []"
proof -
  have a: "\<not> isRetryPrompt plusPrompt" by (simp add: plusPrompt_def newPrompt_def)
  have f: "newFields exampleEnv (pfun (fieldsOf plusPrompt)) (usageSnippets (fieldsOf plusPrompt))
      (options (fieldsOf plusPrompt)) = fieldsOf plusPrompt"
    by (simp add: plusPrompt_def newPrompt_def newFields_def Let_def)
  have b: "\<forall>message. PASSED \<noteq> FAILED message" by simp
  from C6_retry_with_error [of plusPrompt exampleEnv failingSuite "''expected 2 to equal 3''"
      PASSED "[]" failingSuite "FAILED ''expected 2 to equal 3''"] a b f
  show ?thesis by simp
qed

text \<open>
  C10, as stated, fails in its part on retries: a lineage can hold four retry hops, one
  before the first inclusion refiner and one after each of the three.
\<close>

theorem C10_counterexample:
  "isLineage exampleEnv fullPrompt
     (follow exampleEnv fullPrompt
        [(RetryWithError, ''a'', FAILED ''e1'', 0),
         (SnippetIncluder, ''b'', PASSED, 1),
         (RetryWithError, ''c'', FAILED ''e2'', 2),
         (DocCommentIncluder, ''d'', PASSED, 3),
         (RetryWithError, ''e'', FAILED ''e3'', 4),
         (FunctionBodyIncluder, ''f'', PASSED, 5),
         (RetryWithError, ''g'', FAILED ''e4'', 6)])
   \<and> hopsOf RetryWithError
     (follow exampleEnv fullPrompt
        [(RetryWithError, ''a'', FAILED ''e1'', 0),
         (SnippetIncluder, ''b'', PASSED, 1),
         (RetryWithError, ''c'', FAILED ''e2'', 2),
         (DocCommentIncluder, ''d'', PASSED, 3),
         (RetryWithError, ''e'', FAILED ''e3'', 4),
         (FunctionBodyIncluder, ''f'', PASSED, 5),
         (RetryWithError, ''g'', FAILED ''e4'', 6)]) = 4"
  by code_simp

text \<open>
  C10 (amended): every refined prompt has a smaller rank than the prompt it was refined
  from; each inclusion refiner fires only when its flag is not set and yields a prompt
  with the flag set, so along any lineage each of the three inclusion refiners fires at
  most once; the retry refiner does not fire on a retry prompt, and what it yields is a
  retry prompt, so a retry prompt is never itself retried, whatever provenance it has
  got; a lineage has at most four retry hops and at most seven hops in all; and the
  worklist loop ends for every list of completions that the model returns, with an
  exception of \<open>assemble\<close> or with an empty worklist.
\<close>

theorem C10_refinement_terminates:
  "(\<forall>q\<in>set (refine E r p c result). rank q < rank p)
   \<and> (\<forall>q\<in>set (refine E SnippetIncluder p c result).
         \<not> includeSnippets (options (fieldsOf p)) \<and> includeSnippets (options (fieldsOf q)))
   \<and> (\<forall>q\<in>set (refine E DocCommentIncluder p c result).
         \<not> includeDocComment (options (fieldsOf p)) \<and> includeDocComment (options (fieldsOf q)))
   \<and> (\<forall>q\<in>set (refine E FunctionBodyIncluder p c result).
         \<not> includeFunctionBody (options (fieldsOf p))
         \<and> includeFunctionBody (options (fieldsOf q)))
   \<and> (isRetryPrompt p \<longrightarrow> refine E RetryWithError p c result = [])
   \<and> (\<forall>q\<in>set (refine E RetryWithError p c result).
         \<not> isRetryPrompt p \<and> isRetryPrompt q
         \<and> refine E RetryWithError (withProvenance q infos) c' result' = [])
   \<and> (isLineage E p hops \<longrightarrow>
         hopsOf SnippetIncluder hops \<le> 1 \<and> hopsOf DocCommentIncluder hops \<le> 1
         \<and> hopsOf FunctionBodyIncluder hops \<le> 1 \<and> hopsOf RetryWithError hops \<le> 4
         \<and> length hops \<le> 7)
   \<and> (case run E G t st of Inl e \<Rightarrow> True | Inr st' \<Rightarrow> worklist st' = [])"
proof (intro conjI impI ballI)
  fix q assume "q \<in> set (refine E r p c result)"
  then show "rank q < rank p" by (rule refine_rank)
next
  fix q assume "q \<in> set (refine E SnippetIncluder p c result)"
  with refine_effect [of E SnippetIncluder p c result]
  show "\<not> includeSnippets (options (fieldsOf p))" "includeSnippets (options (fieldsOf q))"
    by auto
next
  fix q assume "q \<in> set (refine E DocCommentIncluder p c result)"
  with refine_effect [of E DocCommentIncluder p c result]
  show "\<not> includeDocComment (options (fieldsOf p))" "includeDocComment (options (fieldsOf q))"
    by auto
next
  fix q assume "q \<in> set (refine E FunctionBodyIncluder p c result)"
  with refine_effect [of E FunctionBodyIncluder p c result]
  show "\<not> includeFunctionBody (options (fieldsOf p))" "includeFunctionBody (options (fieldsOf q))"
    by auto
next
  assume "isRetryPrompt p"
  then show "refine E RetryWithError p c result = []" by simp
next
  fix q assume m: "q \<in> set (refine E RetryWithError p c result)"
  from refine_effect [of E RetryWithError p c result] m
  have e: "\<not> isRetryPrompt p \<and> isRetryPrompt q" by (auto simp del: refine.simps)
  then show "\<not> isRetryPrompt p" "isRetryPrompt q" by simp_all
  from e show "refine E RetryWithError (withProvenance q infos) c' result' = []" by simp
next
  assume l: "isLineage E p hops"
  from lineage_hops [OF l, of SnippetIncluder] hopBound_le [of SnippetIncluder p]
  show "hopsOf SnippetIncluder hops \<le> 1" by simp
  from lineage_hops [OF l, of DocCommentIncluder] hopBound_le [of DocCommentIncluder p]
  show "hopsOf DocCommentIncluder hops \<le> 1" by simp
  from lineage_hops [OF l, of FunctionBodyIncluder] hopBound_le [of FunctionBodyIncluder p]
  show "hopsOf FunctionBodyIncluder hops \<le> 1" by simp
  from lineage_hops [OF l, of RetryWithError] hopBound_le [of RetryWithError p]
  show "hopsOf RetryWithError hops \<le> 4" by simp
  from lineage_length [OF l] rank_le [of p] show "length hops \<le> 7" by simp
next
  show "case run E G t st of Inl e \<Rightarrow> True | Inr st' \<Rightarrow> worklist st' = []"
    by (cases "run E G t st") (simp_all add: run_worklist_empty)
qed


section \<open>A run of the driver on an example\<close>

text \<open>
  A small template, a function with an implementation, and a model that answers the first
  query with two completions, a suite of two tests and a single test, and every later
  query with none; the validator lets every test pass.
\<close>

definition twoTests :: string where
  "twoTests =
     ''```js'' @ [nl] @
     ''describe('plus', () => {'' @ [nl] @
     ''it('a', f)'' @ [nl] @
     ''it('b', g)'' @ [nl] @
     ''})'' @ [nl] @
     ''```''"

definition oneTest :: string where
  "oneTest = ''```'' @ [nl] @ ''it('c', h)'' @ [nl] @ ''```''"

definition tinyEnv :: syntaxEnv where
  "tinyEnv = exampleEnv\<lparr>readFileSync :=
     (\<lambda>name. if name = ''t.hb'' then Some ''Test {{{signature}}} {{{functionBody}}}'' else None)\<rparr>"

definition plusWithBody :: apiFunction where
  "plusWithBody = plusFunction\<lparr>descriptor :=
     \<lparr> docComment = None, implementation = ''x + y'' \<rparr>\<rparr>"

definition passingGenerator :: testGenerator where
  "passingGenerator =
     \<lparr> temperatures = [0],
       snippetMap = (\<lambda>name. None),
       completions =
         (\<lambda>asked assembled temperature. if asked = 0 then [twoTests, oneTest] else []),
       genTemplateFileName = ''t.hb'',
       genRetryTemplateFileName = ''r.hb'',
       validateTest = (\<lambda>asked name source. PASSED) \<rparr>"

definition emptyState :: runState where
  "emptyState =
     \<lparr> worklist = [], generatedPrompts = [], generatedPassingTests = False,
       collector = \<lparr> tests = [], testResults = [], promptInfos = [] \<rparr>,
       queries = [], validations = [] \<rparr>"

definition tinyStart :: runState where
  "tinyStart = startRun tinyEnv passingGenerator plusWithBody emptyState"

definition tinyPrompt :: prompt where
  "tinyPrompt = newPrompt tinyEnv plusWithBody []
     (defaultPromptOptions\<lparr>templateFileName := Some ''t.hb'', retryTemplateFileName := Some ''r.hb''\<rparr>)"


lemma tinyRun:
  "case run tinyEnv passingGenerator 0 tinyStart of
     Inl e \<Rightarrow> False
   | Inr st \<Rightarrow>
       length (queries st) = 2
       \<and> map (\<lambda>x. length (provenanceOf (snd x))) (generatedPrompts st) = [0, 2]
       \<and> map fst (validations st) = [''test_0.js'', ''test_1.js'']
       \<and> map (\<lambda>i. Some (testSource i)) (tests (collector st)) =
           [completeTest tinyEnv tinyPrompt (extractTestFromRawCompletion twoTests ! 0) True,
            completeTest tinyEnv tinyPrompt (extractTestFromRawCompletion oneTest ! 0) True]
       \<and> map (\<lambda>x. snd (snd x)) (promptInfos (collector st)) = [[], []]
       \<and> worklist st = []"
  by code_simp

lemma tinyCandidates:
  "length (extractTestFromRawCompletion twoTests) = 2
   \<and> completeTest tinyEnv tinyPrompt (extractTestFromRawCompletion twoTests ! 1) True
      \<noteq> completeTest tinyEnv tinyPrompt (extractTestFromRawCompletion twoTests ! 0) True
   \<and> completeTest tinyEnv tinyPrompt (extractTestFromRawCompletion twoTests ! 1) True
      \<noteq> completeTest tinyEnv tinyPrompt (extractTestFromRawCompletion oneTest ! 0) True"
  by code_simp

text \<open>
  C2, as stated, fails.  In the example the first candidate of the suite passes; the
  second candidate of the suite is never completed, validated or recorded, and the run
  goes on with the worklist: it puts a second query to the model, for the prompt that
  the function-body refiner derived from the passing test.
\<close>

theorem C2_counterexample:
  "length (extractTestFromRawCompletion twoTests) = 2
   \<and> (case run tinyEnv passingGenerator 0 tinyStart of
         Inl e \<Rightarrow> False
       | Inr st \<Rightarrow>
           completeTest tinyEnv tinyPrompt (extractTestFromRawCompletion twoTests ! 1) True
             \<notin> set (map (\<lambda>i. Some (testSource i)) (tests (collector st)))
           \<and> length (validations st) = 2
           \<and> length (queries st) = 2)"
proof (cases "run tinyEnv passingGenerator 0 tinyStart")
  case (Inl e)
  with tinyRun show ?thesis by simp
next
  case (Inr st)
  with tinyRun have "map (\<lambda>i. Some (testSource i)) (tests (collector st)) =
           [completeTest tinyEnv tinyPrompt (extractTestFromRawCompletion twoTests ! 0) True,
            completeTest tinyEnv tinyPrompt (extractTestFromRawCompletion oneTest ! 0) True]"
    and "length (queries st) = 2" and "map fst (validations st) = [''test_0.js'', ''test_1.js'']"
    by simp_all
  moreover from this(3) have "length (validations st) = 2"
    by (metis length_map length_Cons list.size(3) numeral_2_eq_2)
  ultimately show ?thesis using tinyCandidates Inr by simp
qed

section \<open>The first passing test (C2)\<close>

lemma processTests_after_pass:
  assumes "outcome (fst (validateCompletion E G p c t st)) = PASSED \<or> generatedPassingTests st"
  shows "processTests E G p t (c # cs) st =
     (snd (validateCompletion E G p c t st))
       \<lparr> worklist := refinePrompts E p c (fst (validateCompletion E G p c t st)) (worklist st),
         generatedPassingTests := True \<rparr>"
proof -
  obtain info st1 where v: "validateCompletion E G p c t st = (info, st1)" by force
  from validateCompletion_frame(1,3) [of E G p c t st] v
  have w: "worklist st1 = worklist st" and g: "generatedPassingTests st1 = generatedPassingTests st"
    by simp_all
  from assms v have "outcome info = PASSED \<or> generatedPassingTests st1" by (simp add: g)
  then show ?thesis
    by (auto simp: v w Let_def)
qed

lemma processCompletions_flag:
  "generatedPassingTests st \<Longrightarrow> generatedPassingTests (processCompletions E G p t rs st)"
  by (rule processCompletions_preserves [where P = generatedPassingTests])
    (simp_all add: validateCompletion_frame)

text \<open>What one pass of the worklist loop, and what a run, does to the prompts of the worklist.\<close>

lemma step_processes:
  assumes "step E G t st = Inr s"
  shows "\<exists>a. assemble E (last (worklist st)) = Inr a
     \<and> set (map fst (generatedPrompts s)) = insert a (set (map fst (generatedPrompts st)))
     \<and> (if a \<in> set (map fst (generatedPrompts st)) then queries s = queries st
         else queries s = queries st @ [(a, t)])"
proof -
  from assms obtain a where a: "assemble E (last (worklist st)) = Inr a"
    by (auto simp: step_def Let_def split: sum.splits)
  show ?thesis
  proof (cases "map_of (generatedPrompts st) a")
    case (Some previous)
    then have k: "a \<in> set (map fst (generatedPrompts st))"
      using map_of_None_keys [of "generatedPrompts st" a] by simp
    from step_duplicate [OF a Some, of G t] assms
    have "set (map fst (generatedPrompts s)) = set (map fst (generatedPrompts st))"
      and "queries s = queries st"
      by (auto simp: keys_absorb simp del: map_map)
    with a k show ?thesis by auto
  next
    case None
    then have k: "a \<notin> set (map fst (generatedPrompts st))"
      using map_of_None_keys [of "generatedPrompts st" a] by simp
    from step_fresh [OF a None, of G t] assms
    have "queries s = queries st @ [(a, t)]"
      and "generatedPrompts s = generatedPrompts st @ [(a, last (worklist st))]"
      by auto
    with a k show ?thesis by auto
  qed
qed

lemma run_processes:
  "run E G t st = Inr st' \<Longrightarrow>
     set (map fst (generatedPrompts st)) \<subseteq> set (map fst (generatedPrompts st'))
     \<and> (set (map fst (generatedPrompts st)) \<subseteq> set (map fst (queries st)) \<longrightarrow>
          set (map fst (generatedPrompts st')) \<subseteq> set (map fst (queries st')))
     \<and> (\<forall>p\<in>set (worklist st).
          \<exists>a. assemble E p = Inr a \<and> a \<in> set (map fst (generatedPrompts st')))"
proof (induction E G t st rule: run.induct)
  case (1 E G t st)
  show ?case
  proof (cases "length (worklist st) > 0")
    case True
    with "1.prems" obtain s where s: "step E G t st = Inr s" and r: "run E G t s = Inr st'"
      by (subst (asm) run.simps) (auto split: sum.splits)
    from step_processes [OF s] obtain a where a: "assemble E (last (worklist st)) = Inr a"
      and k: "set (map fst (generatedPrompts s)) = insert a (set (map fst (generatedPrompts st)))"
      and q: "if a \<in> set (map fst (generatedPrompts st)) then queries s = queries st
         else queries s = queries st @ [(a, t)]" by blast
    from step_worklist [OF s] obtain new where w: "worklist s = butlast (worklist st) @ new"
      by blast
    from "1.IH" [OF True s r]
    have i1: "set (map fst (generatedPrompts s)) \<subseteq> set (map fst (generatedPrompts st'))"
      and i2: "set (map fst (generatedPrompts s)) \<subseteq> set (map fst (queries s)) \<longrightarrow>
          set (map fst (generatedPrompts st')) \<subseteq> set (map fst (queries st'))"
      and i3: "\<forall>p\<in>set (worklist s).
          \<exists>a. assemble E p = Inr a \<and> a \<in> set (map fst (generatedPrompts st'))"
      by simp_all
    from k i1 have c1: "set (map fst (generatedPrompts st)) \<subseteq> set (map fst (generatedPrompts st'))"
      by auto
    have c2: "set (map fst (generatedPrompts st')) \<subseteq> set (map fst (queries st'))"
      if inv: "set (map fst (generatedPrompts st)) \<subseteq> set (map fst (queries st))"
    proof -
      from inv k q have "set (map fst (generatedPrompts s)) \<subseteq> set (map fst (queries s))"
        by (auto split: if_splits)
      with i2 show ?thesis by simp
    qed
    have c3: "\<exists>b. assemble E p = Inr b \<and> b \<in> set (map fst (generatedPrompts st'))"
      if p: "p \<in> set (worklist st)" for p
    proof (cases "p \<in> set (butlast (worklist st))")
      case True
      with w have "p \<in> set (worklist s)" by simp
      with i3 show ?thesis by blast
    next
      case False
      from True have "worklist st = butlast (worklist st) @ [last (worklist st)]" by simp
      then have "set (worklist st) = set (butlast (worklist st)) \<union> {last (worklist st)}"
        by (metis list.simps(15) set_append set_empty2 sup_bot.right_neutral Un_insert_right)
      with p False have "p = last (worklist st)" by simp
      with a k i1 show ?thesis by auto
    qed
    from c1 c2 c3 show ?thesis by blast
  next
    case False
    with "1.prems" show ?thesis by (subst (asm) run.simps) simp
  qed
qed

text \<open>The state of the example run after its first pass, in which a test passed.\<close>

definition afterFirstPass :: runState where
  "afterFirstPass =
     (case step tinyEnv passingGenerator 0 tinyStart of Inl e \<Rightarrow> emptyState | Inr s \<Rightarrow> s)"

lemma afterFirstPass_facts:
  "step tinyEnv passingGenerator 0 tinyStart = Inr afterFirstPass
   \<and> generatedPassingTests afterFirstPass
   \<and> length (worklist afterFirstPass) = 2
   \<and> map fst (generatedPrompts afterFirstPass) = [''Test plus(x, y) '']
   \<and> map fst (queries afterFirstPass) = [''Test plus(x, y) '']"
  by code_simp

lemma afterFirstPass_run:
  "case run tinyEnv passingGenerator 0 afterFirstPass of
     Inl e \<Rightarrow> False
   | Inr st \<Rightarrow> length (queries st) = 2 \<and> length (generatedPrompts st) = 2"
  by code_simp

text \<open>
  C2 (amended): once a candidate has validated as PASSED in a run (the candidate at hand,
  or an earlier one, so that the flag is set), the loop over the candidates of a raw
  completion validates the candidate at hand, refines the prompt from it, and leaves the
  candidates that remain of this raw completion alone.  The flag stays set for the raw
  completions that follow, so of each of them the first candidate only is validated and
  refined.  The run does not stop, whether the flag is set or not: when it ends without
  an exception of \<open>assemble\<close>, the worklist is empty, and every prompt that was on the
  worklist, the refined prompts among them, has been popped and assembled; its text is
  then a key of the map of generated prompts, and it has been put to the model when the
  keys of the map were texts that had been put to the model.
\<close>

theorem C2_first_pass:
  "(outcome (fst (validateCompletion E G p c t st)) = PASSED \<or> generatedPassingTests st \<longrightarrow>
      processTests E G p t (c # cs) st =
        (snd (validateCompletion E G p c t st))
          \<lparr> worklist := refinePrompts E p c (fst (validateCompletion E G p c t st)) (worklist st),
            generatedPassingTests := True \<rparr>)
   \<and> (generatedPassingTests st \<longrightarrow> generatedPassingTests (processCompletions E G p t rs st))
   \<and> (run E G t st = Inr st' \<longrightarrow>
        worklist st' = []
        \<and> (\<forall>q\<in>set (worklist st).
             \<exists>a. assemble E q = Inr a \<and> a \<in> set (map fst (generatedPrompts st'))
               \<and> (set (map fst (generatedPrompts st)) \<subseteq> set (map fst (queries st)) \<longrightarrow>
                    a \<in> set (map fst (queries st')))))"
proof (intro conjI impI ballI)
  assume "outcome (fst (validateCompletion E G p c t st)) = PASSED \<or> generatedPassingTests st"
  then show "processTests E G p t (c # cs) st =
        (snd (validateCompletion E G p c t st))
          \<lparr> worklist := refinePrompts E p c (fst (validateCompletion E G p c t st)) (worklist st),
            generatedPassingTests := True \<rparr>"
    by (rule processTests_after_pass)
next
  assume "generatedPassingTests st"
  then show "generatedPassingTests (processCompletions E G p t rs st)"
    by (rule processCompletions_flag)
next
  assume "run E G t st = Inr st'"
  then show "worklist st' = []" by (rule run_worklist_empty)
next
  fix q
  assume r: "run E G t st = Inr st'" and q: "q \<in> set (worklist st)"
  from run_processes [OF r] q obtain a where a: "assemble E q = Inr a"
    and k: "a \<in> set (map fst (generatedPrompts st'))"
    and i: "set (map fst (generatedPrompts st)) \<subseteq> set (map fst (queries st)) \<longrightarrow>
          set (map fst (generatedPrompts st')) \<subseteq> set (map fst (queries st'))"
    by blast
  from a k i show "\<exists>a. assemble E q = Inr a \<and> a \<in> set (map fst (generatedPrompts st'))
               \<and> (set (map fst (generatedPrompts st)) \<subseteq> set (map fst (queries st)) \<longrightarrow>
                    a \<in> set (map fst (queries st')))" by blast
qed

theorem C2_first_pass_witness:
  "outcome (fst (validateCompletion tinyEnv passingGenerator tinyPrompt ''it('c', h)'' 0 emptyState))
     = PASSED
   \<and> processTests tinyEnv passingGenerator tinyPrompt 0 [''it('c', h)'', ''it('d', k)''] emptyState =
        (snd (validateCompletion tinyEnv passingGenerator tinyPrompt ''it('c', h)'' 0 emptyState))
          \<lparr> worklist := refinePrompts tinyEnv tinyPrompt ''it('c', h)''
               (fst (validateCompletion tinyEnv passingGenerator tinyPrompt ''it('c', h)'' 0 emptyState))
               (worklist emptyState),
            generatedPassingTests := True \<rparr>
   \<and> generatedPassingTests (emptyState\<lparr>generatedPassingTests := True\<rparr>)
   \<and> generatedPassingTests
       (processCompletions tinyEnv passingGenerator tinyPrompt 0 [oneTest]
          (emptyState\<lparr>generatedPassingTests := True\<rparr>))
   \<and> step tinyEnv passingGenerator 0 tinyStart = Inr afterFirstPass
   \<and> generatedPassingTests afterFirstPass
   \<and> length (worklist afterFirstPass) = 2
   \<and> map fst (queries afterFirstPass) = [''Test plus(x, y) '']
   \<and> (\<exists>st'. run tinyEnv passingGenerator 0 afterFirstPass = Inr st'
         \<and> worklist st' = []
         \<and> length (queries st') = 2
         \<and> list_all (\<lambda>q. \<exists>a. assemble tinyEnv q = Inr a
                           \<and> a \<in> set (map fst (generatedPrompts st'))
                           \<and> a \<in> set (map fst (queries st')))
             (worklist afterFirstPass))"
proof -
  have a: "outcome (fst (validateCompletion tinyEnv passingGenerator tinyPrompt ''it('c', h)'' 0 emptyState))
     = PASSED" by code_simp
  have b: "generatedPassingTests (emptyState\<lparr>generatedPassingTests := True\<rparr>)" by simp
  from afterFirstPass_run obtain st' where r: "run tinyEnv passingGenerator 0 afterFirstPass = Inr st'"
    and l: "length (queries st') = 2"
    by (cases "run tinyEnv passingGenerator 0 afterFirstPass") simp_all
  note f = afterFirstPass_facts
  from f have inv: "set (map fst (generatedPrompts afterFirstPass))
      \<subseteq> set (map fst (queries afterFirstPass))" by simp
  from C2_first_pass [of tinyEnv passingGenerator tinyPrompt "''it('c', h)''" 0 emptyState
      "[''it('d', k)'']" "[oneTest]"] a
  have 1: "processTests tinyEnv passingGenerator tinyPrompt 0 [''it('c', h)'', ''it('d', k)''] emptyState =
        (snd (validateCompletion tinyEnv passingGenerator tinyPrompt ''it('c', h)'' 0 emptyState))
          \<lparr> worklist := refinePrompts tinyEnv tinyPrompt ''it('c', h)''
               (fst (validateCompletion tinyEnv passingGenerator tinyPrompt ''it('c', h)'' 0 emptyState))
               (worklist emptyState),
            generatedPassingTests := True \<rparr>" by blast
  from C2_first_pass [of tinyEnv passingGenerator tinyPrompt "''it('c', h)''" 0
      "emptyState\<lparr>generatedPassingTests := True\<rparr>" "[]" "[oneTest]"] b
  have 2: "generatedPassingTests
       (processCompletions tinyEnv passingGenerator tinyPrompt 0 [oneTest]
          (emptyState\<lparr>generatedPassingTests := True\<rparr>))" by blast
  from C2_first_pass [of tinyEnv passingGenerator tinyPrompt "''it('c', h)''" 0 afterFirstPass
      "[]" "[]" st'] r inv
  have 3: "worklist st' = []"
    and 4: "\<forall>q\<in>set (worklist afterFirstPass).
             \<exists>a. assemble tinyEnv q = Inr a \<and> a \<in> set (map fst (generatedPrompts st'))
               \<and> a \<in> set (map fst (queries st'))" by blast+
  from 4 have 5: "list_all (\<lambda>q. \<exists>a. assemble tinyEnv q = Inr a
                           \<and> a \<in> set (map fst (generatedPrompts st'))
                           \<and> a \<in> set (map fst (queries st')))
             (worklist afterFirstPass)" by (simp add: list_all_iff)
  from a b 1 2 3 5 r l f show ?thesis by blast
qed


section \<open>The empty candidate (C8)\<close>

text \<open>The source under which the empty candidate is recorded.\<close>

definition emptySource :: "syntaxEnv \<Rightarrow> prompt \<Rightarrow> string" where
  "emptySource E p = (case completeTest E p [] True of None \<Rightarrow> [] | Some src \<Rightarrow> src)"

lemma find_None_sources:
  "find (\<lambda>i. testSource i = source) xs = None \<longleftrightarrow> source \<notin> set (map testSource xs)"
  by (induction xs) auto

lemma map_outcome_fresh:
  "source \<notin> set (map testSource xs) \<Longrightarrow>
     map (\<lambda>u. if testSource u = source then u\<lparr>outcome := r\<rparr> else u) xs = xs"
  by (induction xs) auto

lemma validateCompletion_empty_fresh:
  assumes "emptySource E p \<notin> set (map testSource (tests (collector st)))"
  shows "outcome (fst (validateCompletion E G p [] t st)) = FAILED ''Empty test''
    \<and> testSource (fst (validateCompletion E G p [] t st)) = emptySource E p
    \<and> testResults (collector (snd (validateCompletion E G p [] t st)))
        = testResults (collector st) @ [(length (tests (collector st)), t, FAILED ''Empty test'')]
    \<and> tests (collector (snd (validateCompletion E G p [] t st)))
        = tests (collector st) @ [fst (validateCompletion E G p [] t st)]
    \<and> validations (snd (validateCompletion E G p [] t st)) = validations st"
proof -
  from assms have f: "find (\<lambda>i. testSource i = emptySource E p) (tests (collector st)) = None"
    using find_None_sources [of "emptySource E p" "tests (collector st)"] by blast
  show ?thesis
    unfolding validateCompletion_def Let_def emptySource_def [symmetric]
    by (simp add: recordTestInfo_def f Let_def recordTestResult_def map_outcome_fresh [OF assms])
qed

lemma validateCompletion_empty_known:
  assumes "find (\<lambda>i. testSource i = emptySource E p) (tests (collector st)) = Some info"
    and "prompts info \<noteq> []"
  shows "fst (validateCompletion E G p [] t st) = info\<lparr>prompts := prompts info @ [p]\<rparr>
    \<and> testResults (collector (snd (validateCompletion E G p [] t st))) = testResults (collector st)
    \<and> validations (snd (validateCompletion E G p [] t st)) = validations st"
proof -
  from assms(2) have "Suc 0 < length (prompts info @ [p])" by (cases "prompts info") simp_all
  then show ?thesis
    unfolding validateCompletion_def Let_def emptySource_def [symmetric]
    by (simp add: recordTestInfo_def assms(1) Let_def)
qed

lemma validateCompletion_empty_validations:
  "validations (snd (validateCompletion E G p [] t st)) = validations st"
proof -
  obtain info c1 where r: "recordTestInfo (emptySource E p) p
      (accessPath (pfun (fieldsOf p))) (collector st) = (info, c1)" by force
  show ?thesis
    unfolding validateCompletion_def Let_def emptySource_def [symmetric] r prod.case by simp
qed

text \<open>
  C8 (amended): when the candidate is the empty string, \<open>validateCompletion\<close> does not
  invoke the validator.  When the completed source of the candidate is not yet recorded,
  it records the test with the outcome FAILED("Empty test").  When the source is recorded
  already, with a prompt, it returns that record with the calling prompt added and
  records no outcome.
\<close>

theorem C8_empty_test:
  "validations (snd (validateCompletion E G p [] t st)) = validations st
   \<and> (emptySource E p \<notin> set (map testSource (tests (collector st))) \<longrightarrow>
        outcome (fst (validateCompletion E G p [] t st)) = FAILED ''Empty test''
        \<and> testSource (fst (validateCompletion E G p [] t st)) = emptySource E p
        \<and> testResults (collector (snd (validateCompletion E G p [] t st)))
            = testResults (collector st)
                @ [(length (tests (collector st)), t, FAILED ''Empty test'')]
        \<and> tests (collector (snd (validateCompletion E G p [] t st)))
            = tests (collector st) @ [fst (validateCompletion E G p [] t st)])
   \<and> (find (\<lambda>i. testSource i = emptySource E p) (tests (collector st)) = Some info
        \<and> prompts info \<noteq> [] \<longrightarrow>
        fst (validateCompletion E G p [] t st) = info\<lparr>prompts := prompts info @ [p]\<rparr>
        \<and> testResults (collector (snd (validateCompletion E G p [] t st)))
            = testResults (collector st))"
  using validateCompletion_empty_validations [of E G p t st]
    validateCompletion_empty_fresh [of E p st G t]
    validateCompletion_empty_known [of E p st info G t]
  by blast

text \<open>The state after the validation of a candidate that is one space.\<close>

definition afterBlank :: runState where
  "afterBlank = snd (validateCompletion exampleEnv passingGenerator plusPrompt '' '' 0 emptyState)"

text \<open>
  C8, as stated, fails: a candidate that is one space completes to the same source as the
  empty candidate, and the validator is asked about it.  When the empty candidate comes
  after it, the record of that source is reused: its outcome stays PASSED, and no outcome
  FAILED("Empty test") is recorded.
\<close>

theorem C8_counterexample:
  "outcome (fst (validateCompletion exampleEnv passingGenerator plusPrompt [] 0 afterBlank)) = PASSED
   \<and> testResults (collector (snd (validateCompletion exampleEnv passingGenerator plusPrompt [] 0 afterBlank)))
       = [(0, 0, PASSED)]
   \<and> map outcome (tests (collector (snd (validateCompletion exampleEnv passingGenerator plusPrompt [] 0 afterBlank))))
       = [PASSED]"
  by code_simp

theorem C8_empty_test_witness:
  "emptySource exampleEnv plusPrompt \<notin> set (map testSource (tests (collector emptyState)))
   \<and> outcome (fst (validateCompletion exampleEnv passingGenerator plusPrompt [] 0 emptyState))
       = FAILED ''Empty test''
   \<and> testResults (collector (snd (validateCompletion exampleEnv passingGenerator plusPrompt [] 0 emptyState)))
       = [(0, 0, FAILED ''Empty test'')]
   \<and> validations (snd (validateCompletion exampleEnv passingGenerator plusPrompt [] 0 emptyState)) = []
   \<and> (\<exists>info. find (\<lambda>i. testSource i = emptySource exampleEnv plusPrompt)
                 (tests (collector afterBlank)) = Some info
         \<and> prompts info \<noteq> []
         \<and> fst (validateCompletion exampleEnv passingGenerator plusPrompt [] 0 afterBlank)
             = info\<lparr>prompts := prompts info @ [plusPrompt]\<rparr>
         \<and> testResults (collector (snd (validateCompletion exampleEnv passingGenerator plusPrompt [] 0 afterBlank)))
             = testResults (collector afterBlank))"
proof -
  have a: "emptySource exampleEnv plusPrompt \<notin> set (map testSource (tests (collector emptyState)))"
    by (simp add: emptyState_def)
  have e: "testResults (collector emptyState) = []" "tests (collector emptyState) = []"
    "validations emptyState = []"
    by (simp_all add: emptyState_def)
  have k: "case find (\<lambda>i. testSource i = emptySource exampleEnv plusPrompt)
                 (tests (collector afterBlank)) of None \<Rightarrow> False | Some info \<Rightarrow> prompts info \<noteq> []"
    by code_simp
  then obtain info where i: "find (\<lambda>i. testSource i = emptySource exampleEnv plusPrompt)
                 (tests (collector afterBlank)) = Some info" and n: "prompts info \<noteq> []"
    by (auto split: option.splits)
  from C8_empty_test [of exampleEnv passingGenerator plusPrompt 0 emptyState info] a e
  have 1: "outcome (fst (validateCompletion exampleEnv passingGenerator plusPrompt [] 0 emptyState))
       = FAILED ''Empty test''
   \<and> testResults (collector (snd (validateCompletion exampleEnv passingGenerator plusPrompt [] 0 emptyState)))
       = [(0, 0, FAILED ''Empty test'')]
   \<and> validations (snd (validateCompletion exampleEnv passingGenerator plusPrompt [] 0 emptyState)) = []"
    by simp
  from C8_empty_test [of exampleEnv passingGenerator plusPrompt 0 afterBlank info] i n
  have 2: "fst (validateCompletion exampleEnv passingGenerator plusPrompt [] 0 afterBlank)
             = info\<lparr>prompts := prompts info @ [plusPrompt]\<rparr>
         \<and> testResults (collector (snd (validateCompletion exampleEnv passingGenerator plusPrompt [] 0 afterBlank)))
             = testResults (collector afterBlank)" by blast
  from a 1 2 i n show ?thesis by blast
qed


section \<open>The claims on the example run\<close>

text \<open>
  The state of the example run before its last pass: the worklist holds the prompt that
  the function-body refiner derived from the first test, and the map holds, for the same
  text, the prompt that it derived from the second test.
\<close>

definition beforeDuplicate :: runState where
  "beforeDuplicate =
     (case step tinyEnv passingGenerator 0 tinyStart of
        Inl e \<Rightarrow> emptyState
      | Inr s \<Rightarrow> (case step tinyEnv passingGenerator 0 s of Inl e \<Rightarrow> emptyState | Inr s' \<Rightarrow> s'))"

lemma beforeDuplicate_facts:
  "map fst (generatedPrompts beforeDuplicate) =
     [''Test plus(x, y) '',
      ''Test plus(x, y) '' @ [nl] @ ''This function is defined as follows:'' @ [nl] @
        ''```'' @ [nl] @ ''x + y'' @ [nl] @ ''```'']
   \<and> map (\<lambda>x. map testId (provenanceOf (snd x))) (generatedPrompts beforeDuplicate) = [[], [1]]
   \<and> map (\<lambda>q. map testId (provenanceOf q)) (worklist beforeDuplicate) = [[0]]
   \<and> assemble tinyEnv (last (worklist beforeDuplicate)) =
       Inr (''Test plus(x, y) '' @ [nl] @ ''This function is defined as follows:'' @ [nl] @
        ''```'' @ [nl] @ ''x + y'' @ [nl] @ ''```'')
   \<and> length (queries beforeDuplicate) = 2
   \<and> length (promptInfos (collector beforeDuplicate)) = 2"
  by code_simp

definition bodyKey :: string where
  "bodyKey = ''Test plus(x, y) '' @ [nl] @ ''This function is defined as follows:'' @ [nl] @
        ''```'' @ [nl] @ ''x + y'' @ [nl] @ ''```''"

lemma tinyAssemble: "assemble tinyEnv tinyPrompt = Inr ''Test plus(x, y) ''"
  by code_simp

theorem C3_one_query_per_text_witness:
  "generatedPrompts tinyStart = []
   \<and> (\<exists>st' new. run tinyEnv passingGenerator 0 tinyStart = Inr st'
         \<and> queries st' = queries tinyStart @ new \<and> distinct (map fst new) \<and> length new = 2)
   \<and> assemble tinyEnv (last (worklist beforeDuplicate)) = Inr bodyKey
   \<and> (\<exists>previous. map_of (generatedPrompts beforeDuplicate) bodyKey = Some previous
         \<and> map testId (provenanceOf previous) = [1]
         \<and> map testId (provenanceOf (last (worklist beforeDuplicate))) = [0]
         \<and> (\<exists>st'' stored. step tinyEnv passingGenerator 0 beforeDuplicate = Inr st''
               \<and> length (queries st'') = 2
               \<and> length (promptInfos (collector st'')) = 2
               \<and> worklist st'' = []
               \<and> map_of (generatedPrompts st'') bodyKey = Some stored
               \<and> map testId (provenanceOf stored) = [1, 0]
               \<and> map_of (generatedPrompts st'') ''Test plus(x, y) ''
                   = map_of (generatedPrompts beforeDuplicate) ''Test plus(x, y) ''))"
proof -
  have g: "generatedPrompts tinyStart = []" by (simp add: tinyStart_def startRun_def Let_def)
  have q0: "queries tinyStart = []"
    by (simp add: tinyStart_def startRun_def Let_def emptyState_def)
  from tinyRun obtain st' where r: "run tinyEnv passingGenerator 0 tinyStart = Inr st'"
    and l: "length (queries st') = 2"
    by (cases "run tinyEnv passingGenerator 0 tinyStart") simp_all
  note f = beforeDuplicate_facts [folded bodyKey_def]
  from f have a: "assemble tinyEnv (last (worklist beforeDuplicate)) = Inr bodyKey" by simp
  from f have k: "map fst (generatedPrompts beforeDuplicate) = [''Test plus(x, y) '', bodyKey]"
    and pv: "map (\<lambda>x. map testId (provenanceOf (snd x))) (generatedPrompts beforeDuplicate) = [[], [1]]"
    and w: "map (\<lambda>q. map testId (provenanceOf q)) (worklist beforeDuplicate) = [[0]]"
    and lq: "length (queries beforeDuplicate) = 2"
    and lp: "length (promptInfos (collector beforeDuplicate)) = 2"
    by simp_all
  have ne: "bodyKey \<noteq> ''Test plus(x, y) ''" by (simp add: bodyKey_def)
  from k obtain p0 p1 where gp: "generatedPrompts beforeDuplicate = [(''Test plus(x, y) '', p0), (bodyKey, p1)]"
    by (auto simp: map_eq_Cons_conv)
  with ne have m: "map_of (generatedPrompts beforeDuplicate) bodyKey = Some p1" by simp
  from pv gp have p1: "map testId (provenanceOf p1) = [1]" by simp
  from w obtain q where wl: "worklist beforeDuplicate = [q]" and qp: "map testId (provenanceOf q) = [0]"
    by (auto simp: map_eq_Cons_conv)
  from C3_one_query_per_text [of tinyStart tinyEnv passingGenerator 0 st' bodyKey p1] g r
  obtain new where n: "queries st' = queries tinyStart @ new" "distinct (map fst new)" by blast
  with l q0 have ln: "length new = 2" by simp
  from C3_one_query_per_text [of beforeDuplicate tinyEnv passingGenerator 0 st' bodyKey p1] a m
  obtain st'' stored where s: "step tinyEnv passingGenerator 0 beforeDuplicate = Inr st''"
    and s1: "queries st'' = queries beforeDuplicate"
    and s2: "recordsOf (collector st'') = recordsOf (collector beforeDuplicate)"
    and s3: "worklist st'' = butlast (worklist beforeDuplicate)"
    and s4: "map_of (generatedPrompts st'') bodyKey = Some stored"
    and s5: "provenanceOf stored = provenanceOf p1 @ provenanceOf (last (worklist beforeDuplicate))"
    and s6: "\<forall>other. other \<noteq> bodyKey \<longrightarrow>
               map_of (generatedPrompts st'') other = map_of (generatedPrompts beforeDuplicate) other"
    by blast
  from s2 have "length (promptInfos (recordsOf (collector st'')))
      = length (promptInfos (recordsOf (collector beforeDuplicate)))" by simp
  then have c: "length (promptInfos (collector st'')) = 2" by (simp add: recordsOf_def lp)
  from s5 p1 qp wl have t: "map testId (provenanceOf stored) = [1, 0]" by simp
  from s6 ne have o: "map_of (generatedPrompts st'') ''Test plus(x, y) ''
                   = map_of (generatedPrompts beforeDuplicate) ''Test plus(x, y) ''" by simp
  from s3 wl have e: "worklist st'' = []" by simp
  from s1 lq have lq': "length (queries st'') = 2" by simp
  from g r n ln a m p1 qp wl s lq' c e s4 t o show ?thesis by auto
qed

theorem C9_empty_completion_set_witness:
  "assemble tinyEnv (last (worklist tinyStart)) = Inr ''Test plus(x, y) ''
   \<and> map_of (generatedPrompts tinyStart) ''Test plus(x, y) '' = None
   \<and> completions passingGenerator (length (queries tinyStart)) ''Test plus(x, y) '' 0
       = [twoTests, oneTest]
   \<and> (\<exists>st'. step tinyEnv passingGenerator 0 tinyStart = Inr st'
         \<and> promptInfos (collector st') = [(tinyPrompt, 0, [])])
   \<and> (\<exists>st'' new. run tinyEnv passingGenerator 0 tinyStart = Inr st''
         \<and> promptInfos (collector st'') = new \<and> length new = 2
         \<and> list_all (\<lambda>x. snd (snd x) = []) new)"
proof -
  have w: "worklist tinyStart = [tinyPrompt]" "generatedPrompts tinyStart = []"
    "promptInfos (collector tinyStart) = []" "queries tinyStart = []"
    by (simp_all add: tinyStart_def startRun_def Let_def emptyState_def tinyPrompt_def
        passingGenerator_def plusWithBody_def plusFunction_def)
  have a: "assemble tinyEnv (last (worklist tinyStart)) = Inr ''Test plus(x, y) ''"
    by (simp add: w tinyAssemble)
  have m: "map_of (generatedPrompts tinyStart) ''Test plus(x, y) '' = None" by (simp add: w)
  have c: "completions passingGenerator (length (queries tinyStart)) ''Test plus(x, y) '' 0
       = [twoTests, oneTest]" by (simp add: w passingGenerator_def)
  from tinyRun obtain st'' where r: "run tinyEnv passingGenerator 0 tinyStart = Inr st''"
    and l: "map (\<lambda>x. snd (snd x)) (promptInfos (collector st'')) = [[], []]"
    by (cases "run tinyEnv passingGenerator 0 tinyStart") simp_all
  from l have l2: "length (promptInfos (collector st'')) = 2"
    by (metis length_map length_Cons list.size(3) numeral_2_eq_2)
  from C9_empty_completion_set [of tinyEnv tinyStart "''Test plus(x, y) ''" passingGenerator 0 st''] a m r
  obtain st' new where "step tinyEnv passingGenerator 0 tinyStart = Inr st'"
    "promptInfos (collector st') = promptInfos (collector tinyStart) @ [(last (worklist tinyStart), 0, [])]"
    "promptInfos (collector st'') = promptInfos (collector tinyStart) @ new"
    "\<forall>x\<in>set new. snd (snd x) = []" by blast
  with a m c r l2 w show ?thesis by (auto simp: list_all_iff)
qed

theorem C10_refinement_terminates_witness:
  "refine exampleEnv SnippetIncluder fullPrompt ''a'' PASSED
      = [newPrompt exampleEnv fullFunction [''plus(1, 2)''] (plusOptions\<lparr>includeSnippets := True\<rparr>)]
   \<and> rank (newPrompt exampleEnv fullFunction [''plus(1, 2)''] (plusOptions\<lparr>includeSnippets := True\<rparr>))
       < rank fullPrompt
   \<and> \<not> includeSnippets (options (fieldsOf fullPrompt))
   \<and> refine exampleEnv RetryWithError fullPrompt ''a'' (FAILED ''e'') = [retryOfFull]
   \<and> isRetryPrompt retryOfFull
   \<and> refine exampleEnv RetryWithError retryOfFull ''b'' (FAILED ''f'') = []
   \<and> refine exampleEnv RetryWithError
        (withProvenance retryOfFull [Provenance fullPrompt 0 ''RetryWithError''])
        ''b'' (FAILED ''f'') = []
   \<and> isLineage exampleEnv fullPrompt
       (follow exampleEnv fullPrompt
          [(SnippetIncluder, ''a'', PASSED, 0), (DocCommentIncluder, ''b'', PASSED, 1),
           (FunctionBodyIncluder, ''c'', PASSED, 2), (RetryWithError, ''d'', FAILED ''e'', 3)])
   \<and> length (follow exampleEnv fullPrompt
          [(SnippetIncluder, ''a'', PASSED, 0), (DocCommentIncluder, ''b'', PASSED, 1),
           (FunctionBodyIncluder, ''c'', PASSED, 2), (RetryWithError, ''d'', FAILED ''e'', 3)]) = 4
   \<and> hopsOf SnippetIncluder (follow exampleEnv fullPrompt
          [(SnippetIncluder, ''a'', PASSED, 0), (DocCommentIncluder, ''b'', PASSED, 1),
           (FunctionBodyIncluder, ''c'', PASSED, 2), (RetryWithError, ''d'', FAILED ''e'', 3)]) \<le> 1
   \<and> (\<exists>st'. run tinyEnv passingGenerator 0 tinyStart = Inr st' \<and> worklist st' = [])"
proof -
  have a: "refine exampleEnv SnippetIncluder fullPrompt ''a'' PASSED
      = [newPrompt exampleEnv fullFunction [''plus(1, 2)''] (plusOptions\<lparr>includeSnippets := True\<rparr>)]"
    by (simp add: fullPrompt_def newPrompt_def plusOptions_def defaultPromptOptions_def newFields_def Let_def)
  have b: "refine exampleEnv RetryWithError fullPrompt ''a'' (FAILED ''e'') = [retryOfFull]"
    by (simp add: retryOfFull_def fullPrompt_def newPrompt_def)
  have i: "isRetryPrompt retryOfFull" by (simp add: retryOfFull_def newRetryPrompt_def)
  have l: "isLineage exampleEnv fullPrompt
       (follow exampleEnv fullPrompt
          [(SnippetIncluder, ''a'', PASSED, 0), (DocCommentIncluder, ''b'', PASSED, 1),
           (FunctionBodyIncluder, ''c'', PASSED, 2), (RetryWithError, ''d'', FAILED ''e'', 3)])"
    by code_simp
  have n: "length (follow exampleEnv fullPrompt
          [(SnippetIncluder, ''a'', PASSED, 0), (DocCommentIncluder, ''b'', PASSED, 1),
           (FunctionBodyIncluder, ''c'', PASSED, 2), (RetryWithError, ''d'', FAILED ''e'', 3)]) = 4"
    by code_simp
  from tinyRun obtain st' where r: "run tinyEnv passingGenerator 0 tinyStart = Inr st'"
    by (cases "run tinyEnv passingGenerator 0 tinyStart") simp_all
  note t = C10_refinement_terminates [of exampleEnv SnippetIncluder fullPrompt "''a''" PASSED
      "[]" "''b''" "FAILED ''f''"
      "follow exampleEnv fullPrompt
          [(SnippetIncluder, ''a'', PASSED, 0), (DocCommentIncluder, ''b'', PASSED, 1),
           (FunctionBodyIncluder, ''c'', PASSED, 2), (RetryWithError, ''d'', FAILED ''e'', 3)]"
      passingGenerator 0 tinyStart]
  note u = C10_refinement_terminates [of tinyEnv SnippetIncluder fullPrompt "''a''" PASSED "[]"
      "''b''" "FAILED ''f''" "[]" passingGenerator 0 tinyStart]
  note v = C10_refinement_terminates [of exampleEnv RetryWithError retryOfFull "''b''" "FAILED ''f''"
      "[]" "''b''" "FAILED ''f''" "[]" passingGenerator 0 tinyStart]
  note w = C10_refinement_terminates [of exampleEnv RetryWithError fullPrompt "''a''" "FAILED ''e''"
      "[Provenance fullPrompt 0 ''RetryWithError'']" "''b''" "FAILED ''f''" "[]" passingGenerator 0 tinyStart]
  from t have "\<forall>q\<in>set (refine exampleEnv SnippetIncluder fullPrompt ''a'' PASSED).
      rank q < rank fullPrompt" by (rule conjunct1)
  then have 1: "rank (newPrompt exampleEnv fullFunction [''plus(1, 2)''] (plusOptions\<lparr>includeSnippets := True\<rparr>))
       < rank fullPrompt" unfolding a by simp
  from t have "\<forall>q\<in>set (refine exampleEnv SnippetIncluder fullPrompt ''a'' PASSED).
      \<not> includeSnippets (options (fieldsOf fullPrompt)) \<and> includeSnippets (options (fieldsOf q))"
    by (rule conjunct1 [OF conjunct2])
  then have 2: "\<not> includeSnippets (options (fieldsOf fullPrompt))" unfolding a by simp
  from t l have 3: "hopsOf SnippetIncluder (follow exampleEnv fullPrompt
          [(SnippetIncluder, ''a'', PASSED, 0), (DocCommentIncluder, ''b'', PASSED, 1),
           (FunctionBodyIncluder, ''c'', PASSED, 2), (RetryWithError, ''d'', FAILED ''e'', 3)]) \<le> 1"
    by blast
  from u have "case run tinyEnv passingGenerator 0 tinyStart of
      Inl e \<Rightarrow> True | Inr st' \<Rightarrow> worklist st' = []"
    by (rule conjunct2 [OF conjunct2 [OF conjunct2 [OF conjunct2 [OF conjunct2
          [OF conjunct2 [OF conjunct2]]]]]])
  with r have 4: "worklist st' = []" by simp
  from v have "isRetryPrompt retryOfFull \<longrightarrow>
      refine exampleEnv RetryWithError retryOfFull ''b'' (FAILED ''f'') = []"
    by (rule conjunct1 [OF conjunct2 [OF conjunct2 [OF conjunct2 [OF conjunct2]]]])
  with i have 5: "refine exampleEnv RetryWithError retryOfFull ''b'' (FAILED ''f'') = []"
    by (rule rev_mp)
  from w have "\<forall>q\<in>set (refine exampleEnv RetryWithError fullPrompt ''a'' (FAILED ''e'')).
         \<not> isRetryPrompt fullPrompt \<and> isRetryPrompt q
         \<and> refine exampleEnv RetryWithError
              (withProvenance q [Provenance fullPrompt 0 ''RetryWithError'']) ''b'' (FAILED ''f'') = []"
    by (rule conjunct1 [OF conjunct2 [OF conjunct2 [OF conjunct2 [OF conjunct2 [OF conjunct2]]]]])
  then have 6: "refine exampleEnv RetryWithError
        (withProvenance retryOfFull [Provenance fullPrompt 0 ''RetryWithError''])
        ''b'' (FAILED ''f'') = []" unfolding b by simp
  from a b i l n 1 2 3 4 5 6 r show ?thesis by blast
qed


section \<open>Normalisation of the assembled text (C4)\<close>

text \<open>A replacement of the first occurrence of a pattern cuts the text around it.\<close>

lemma replace_decomp:
  "includesStr s pat \<Longrightarrow> \<exists>ps ss. s = ps @ pat @ ss \<and> replace s pat rep = ps @ rep @ ss"
proof (induction s)
  case Nil
  then show ?case by simp
next
  case (Cons c cs)
  show ?case
  proof (cases "prefix pat (c # cs)")
    case True
    then obtain ss where ss: "c # cs = pat @ ss" by (auto simp: prefix_def)
    have "replace (c # cs) pat rep = rep @ drop (length pat) (c # cs)" using True by simp
    also have "\<dots> = rep @ ss" by (simp only: ss) simp
    finally have "c # cs = [] @ pat @ ss \<and> replace (c # cs) pat rep = [] @ rep @ ss"
      using ss by simp
    then show ?thesis by blast
  next
    case False
    with Cons.prems have "includesStr cs pat" by simp
    from Cons.IH [OF this] obtain ps ss where "cs = ps @ pat @ ss" "replace cs pat rep = ps @ rep @ ss"
      by blast
    with False have "c # cs = (c # ps) @ pat @ ss \<and> replace (c # cs) pat rep = (c # ps) @ rep @ ss"
      by simp
    then show ?thesis by blast
  qed
qed

text \<open>
  None of the three loops brings back a pattern that an earlier loop has removed: each
  replacement removes one of two line feeds that stand side by side.
\<close>

lemma includes_append_mono:
  assumes "\<And>ps. prefix q (ps @ u) \<Longrightarrow> prefix q (ps @ v)"
    and "includesStr u q \<Longrightarrow> includesStr v q"
  shows "includesStr (ps @ u) q \<Longrightarrow> includesStr (ps @ v) q"
proof (induction ps)
  case Nil
  with assms(2) show ?case by simp
next
  case (Cons x ps)
  from Cons.prems have "prefix q ((x # ps) @ u) \<or> includesStr (ps @ u) q" by simp
  then show ?case
  proof
    assume "prefix q ((x # ps) @ u)"
    then have "prefix q ((x # ps) @ v)" by (rule assms(1))
    then show ?thesis by simp
  next
    assume "includesStr (ps @ u) q"
    then have "includesStr (ps @ v) q" by (rule Cons.IH)
    then show ?thesis by simp
  qed
qed

lemma keepA:
  "includesStr (ps @ ''```'' @ [nl] @ ss) [nl, nl, nl] \<Longrightarrow>
   includesStr (ps @ ''```'' @ [nl, nl] @ ss) [nl, nl, nl]"
proof (rule includes_append_mono)
  fix ps
  assume "prefix [nl, nl, nl] (ps @ ''```'' @ [nl] @ ss)"
  then show "prefix [nl, nl, nl] (ps @ ''```'' @ [nl, nl] @ ss)"
    by (auto simp: prefix_append Cons_eq_append_conv)
next
  assume "includesStr (''```'' @ [nl] @ ss) [nl, nl, nl]"
  then show "includesStr (''```'' @ [nl, nl] @ ss) [nl, nl, nl]" by auto
qed

lemma keepB:
  "includesStr (ps @ [nl] @ ''```'' @ ss) [nl, nl, nl] \<Longrightarrow>
   includesStr (ps @ [nl, nl] @ ''```'' @ ss) [nl, nl, nl]"
proof (rule includes_append_mono)
  fix ps
  assume "prefix [nl, nl, nl] (ps @ [nl] @ ''```'' @ ss)"
  then show "prefix [nl, nl, nl] (ps @ [nl, nl] @ ''```'' @ ss)"
    by (auto simp: prefix_append Cons_eq_append_conv)
next
  assume "includesStr ([nl] @ ''```'' @ ss) [nl, nl, nl]"
  then show "includesStr ([nl, nl] @ ''```'' @ ss) [nl, nl, nl]" by auto
qed

lemma keepC:
  "includesStr (ps @ [nl] @ ''```'' @ ss) (''```'' @ [nl, nl]) \<Longrightarrow>
   includesStr (ps @ [nl, nl] @ ''```'' @ ss) (''```'' @ [nl, nl])"
proof (rule includes_append_mono)
  fix ps
  assume "prefix (''```'' @ [nl, nl]) (ps @ [nl] @ ''```'' @ ss)"
  then show "prefix (''```'' @ [nl, nl]) (ps @ [nl, nl] @ ''```'' @ ss)"
    by (auto simp: prefix_append Cons_eq_append_conv)
next
  assume "includesStr ([nl] @ ''```'' @ ss) (''```'' @ [nl, nl])"
  then show "includesStr ([nl, nl] @ ''```'' @ ss) (''```'' @ [nl, nl])" by auto
qed

lemma collapseBlankLines_exit: "\<not> includesStr (collapseBlankLines s) [nl, nl, nl]"
proof (induction s rule: collapseBlankLines.induct)
  case (1 s)
  then show ?case by (subst collapseBlankLines.simps) simp
qed

lemma trimFenceStart_exit: "\<not> includesStr (trimFenceStart s) (''```'' @ [nl, nl])"
proof (induction s rule: trimFenceStart.induct)
  case (1 s)
  then show ?case by (subst trimFenceStart.simps) simp
qed

lemma trimFenceEnd_exit: "\<not> includesStr (trimFenceEnd s) ([nl, nl] @ ''```'')"
proof (induction s rule: trimFenceEnd.induct)
  case (1 s)
  then show ?case by (subst trimFenceEnd.simps) simp
qed

lemma replace_keeps:
  assumes k: "\<And>ps ss. includesStr (ps @ rep @ ss) q \<Longrightarrow> includesStr (ps @ pat @ ss) q"
    and "includesStr s pat" and "\<not> includesStr s q"
  shows "\<not> includesStr (replace s pat rep) q"
proof -
  from replace_decomp [OF assms(2), of rep] obtain ps ss where
    "s = ps @ pat @ ss" "replace s pat rep = ps @ rep @ ss" by blast
  with k [of ps ss] assms(3) show ?thesis by auto
qed

lemma trimFenceStart_keeps:
  "\<not> includesStr s [nl, nl, nl] \<Longrightarrow> \<not> includesStr (trimFenceStart s) [nl, nl, nl]"
proof (induction s rule: trimFenceStart.induct)
  case (1 s)
  show ?case
  proof (cases "includesStr s (''```'' @ [nl, nl])")
    case True
    have "\<not> includesStr (replace s (''```'' @ [nl, nl]) (''```'' @ [nl])) [nl, nl, nl]"
      using True "1.prems" by (rule replace_keeps [rotated]) (use keepA in simp)
    from "1.IH" [OF True this] True show ?thesis by (subst trimFenceStart.simps) simp
  next
    case False
    with "1.prems" show ?thesis by (subst trimFenceStart.simps) simp
  qed
qed

lemma trimFenceEnd_keeps:
  "\<not> includesStr s q \<Longrightarrow> q = [nl, nl, nl] \<or> q = ''```'' @ [nl, nl] \<Longrightarrow>
   \<not> includesStr (trimFenceEnd s) q"
proof (induction s rule: trimFenceEnd.induct)
  case (1 s)
  show ?case
  proof (cases "includesStr s ([nl, nl] @ ''```'')")
    case True
    have "\<not> includesStr (replace s ([nl, nl] @ ''```'') ([nl] @ ''```'')) q"
      using True "1.prems"(1)
    proof (rule replace_keeps [rotated])
      fix ps ss
      assume "includesStr (ps @ ([nl] @ ''```'') @ ss) q"
      with "1.prems"(2) keepB [of ps ss] keepC [of ps ss]
      show "includesStr (ps @ ([nl, nl] @ ''```'') @ ss) q" by auto
    qed
    from "1.IH" [OF True this "1.prems"(2)] True show ?thesis
      by (subst trimFenceEnd.simps) simp
  next
    case False
    with "1.prems" show ?thesis by (subst trimFenceEnd.simps) simp
  qed
qed

lemma collapsePasses_clean:
  "\<not> includesStr (collapsePasses s) [nl, nl, nl]"
  "\<not> includesStr (collapsePasses s) (''```'' @ [nl, nl])"
  "\<not> includesStr (collapsePasses s) ([nl, nl] @ ''```'')"
proof -
  have a: "\<not> includesStr (trimFenceStart (collapseBlankLines s)) [nl, nl, nl]"
    by (rule trimFenceStart_keeps) (rule collapseBlankLines_exit)
  show "\<not> includesStr (collapsePasses s) [nl, nl, nl]"
    unfolding collapsePasses_def using a by (rule trimFenceEnd_keeps) simp
  show "\<not> includesStr (collapsePasses s) (''```'' @ [nl, nl])"
    unfolding collapsePasses_def using trimFenceStart_exit by (rule trimFenceEnd_keeps) simp
  show "\<not> includesStr (collapsePasses s) ([nl, nl] @ ''```'')"
    unfolding collapsePasses_def by (rule trimFenceEnd_exit)
qed

lemma collapsePasses_fixed:
  assumes "\<not> includesStr s [nl, nl, nl]" and "\<not> includesStr s (''```'' @ [nl, nl])"
    and "\<not> includesStr s ([nl, nl] @ ''```'')"
  shows "collapsePasses s = s"
proof -
  from assms(1) have "collapseBlankLines s = s" by (subst collapseBlankLines.simps) simp
  moreover from assms(2) have "trimFenceStart s = s" by (subst trimFenceStart.simps) simp
  moreover from assms(3) have "trimFenceEnd s = s" by (subst trimFenceEnd.simps) simp
  ultimately show ?thesis by (simp add: collapsePasses_def)
qed

lemma assemble_withProvenance: "assemble E (withProvenance p infos) = assemble E p"
  by (rule fieldsOf.cases [of p]) simp_all

text \<open>The prompt of the example with the function body included, and its text.\<close>

definition bodyPrompt :: prompt where
  "bodyPrompt = newPrompt tinyEnv plusWithBody []
     (defaultPromptOptions\<lparr>includeFunctionBody := True, templateFileName := Some ''t.hb''\<rparr>)"

definition bodyText :: string where
  "bodyText = ''Test plus(x, y) '' @ [nl] @ ''This function is defined as follows:'' @ [nl] @
     ''```'' @ [nl] @ ''x + y'' @ [nl] @ ''```''"

text \<open>
  C4, as stated, fails in its second part: the paragraph breaks are not idempotent.
  The assembled text of the example has a line feed before \<open>This function\<close>; normalised
  again, it gets a second one.
\<close>

theorem C4_counterexample:
  "assemble tinyEnv bodyPrompt = Inr bodyText
   \<and> normalize bodyText = ''Test plus(x, y) '' @ [nl, nl] @ ''This function is defined as follows:'' @ [nl] @
     ''```'' @ [nl] @ ''x + y'' @ [nl] @ ''```''
   \<and> normalize bodyText \<noteq> bodyText"
  by code_simp

text \<open>
  C4 (amended): \<open>assemble\<close> is a function of the fields of the prompt and of the template:
  provenance records that are added to a prompt later do not change its text.  The three
  loops of the normalisation (newline collapsing and the two fence blank-line removals)
  are idempotent together: their output holds none of the three patterns, and applying
  them to it again leaves it unchanged.  (The paragraph-break insertions are applied
  once after the loops and are not idempotent.)
\<close>

theorem C4_assemble_stable:
  "assemble E (withProvenance p infos) = assemble E p
   \<and> collapsePasses (collapsePasses s) = collapsePasses s
   \<and> \<not> includesStr (collapsePasses s) [nl, nl, nl]
   \<and> \<not> includesStr (collapsePasses s) (''```'' @ [nl, nl])
   \<and> \<not> includesStr (collapsePasses s) ([nl, nl] @ ''```'')"
  using assemble_withProvenance [of E p infos] collapsePasses_clean [of s]
    collapsePasses_fixed [of "collapsePasses s"]
  by simp

theorem C4_assemble_stable_witness:
  "assemble tinyEnv (withProvenance bodyPrompt [Provenance tinyPrompt 0 ''FunctionBodyIncluder''])
     = Inr bodyText
   \<and> collapsePasses (''a'' @ [nl, nl, nl, nl] @ ''```'' @ [nl, nl] @ ''b'' @ [nl, nl] @ ''```'')
       = ''a'' @ [nl] @ ''```'' @ [nl] @ ''b'' @ [nl] @ ''```''
   \<and> collapsePasses (collapsePasses (''a'' @ [nl, nl, nl, nl] @ ''```'' @ [nl, nl] @ ''b'' @ [nl, nl] @ ''```''))
       = ''a'' @ [nl] @ ''```'' @ [nl] @ ''b'' @ [nl] @ ''```''"
proof -
  have a: "assemble tinyEnv bodyPrompt = Inr bodyText" by code_simp
  have b: "collapsePasses (''a'' @ [nl, nl, nl, nl] @ ''```'' @ [nl, nl] @ ''b'' @ [nl, nl] @ ''```'')
       = ''a'' @ [nl] @ ''```'' @ [nl] @ ''b'' @ [nl] @ ''```''" by code_simp
  from C4_assemble_stable [of tinyEnv bodyPrompt "[Provenance tinyPrompt 0 ''FunctionBodyIncluder'']"
      "''a'' @ [nl, nl, nl, nl] @ ''```'' @ [nl, nl] @ ''b'' @ [nl, nl] @ ''```''"] a b
  show ?thesis by simp
qed


section \<open>Suites of two tests (C7)\<close>

text \<open>Where the first occurrence of a pattern is, when the text before it holds none.\<close>

lemma firstIndex_None: "firstIndex s pat = None \<longleftrightarrow> \<not> includesStr s pat"
  by (induction s) auto

lemma firstIndex_append:
  assumes "pat \<noteq> []"
  shows "\<not> includesStr (a @ butlast pat) pat \<Longrightarrow> firstIndex (a @ pat @ b) pat = Some (length a)"
proof (induction a)
  case Nil
  from assms obtain c cs where "pat = c # cs" by (cases pat) auto
  then show ?case by simp
next
  case (Cons x a)
  from Cons.prems have np: "\<not> prefix pat ((x # a) @ butlast pat)"
    and ni: "\<not> includesStr (a @ butlast pat) pat" by simp_all
  have "\<not> prefix pat ((x # a) @ pat @ b)"
  proof
    assume p: "prefix pat ((x # a) @ pat @ b)"
    have e: "(x # a) @ pat @ b = ((x # a) @ butlast pat) @ ([last pat] @ b)"
      using assms by simp
    from p have "prefix pat (((x # a) @ butlast pat) @ ([last pat] @ b))" by (simp only: e)
    then have "prefix pat ((x # a) @ butlast pat)
        \<or> (\<exists>us. pat = ((x # a) @ butlast pat) @ us \<and> prefix us ([last pat] @ b))"
      by (simp only: prefix_append)
    then show False
    proof
      assume "prefix pat ((x # a) @ butlast pat)"
      with np show False by contradiction
    next
      assume "\<exists>us. pat = ((x # a) @ butlast pat) @ us \<and> prefix us ([last pat] @ b)"
      then obtain us where us: "pat = ((x # a) @ butlast pat) @ us" by blast
      then have "length pat = length ((x # a) @ butlast pat) + length us" by (metis length_append)
      moreover from assms have "0 < length pat" by simp
      ultimately have "length us = 0" by simp
      then have "us = []" by simp
      with us have "pat = (x # a) @ butlast pat" by simp
      then have "prefix pat ((x # a) @ butlast pat)" by simp
      with np show False by contradiction
    qed
  qed
  with Cons.IH [OF ni] show ?case by simp
qed

lemma indexOfFrom_at:
  assumes "pat \<noteq> []" and "\<not> includesStr (a @ butlast pat) pat"
  shows "indexOfFrom (u @ a @ pat @ b) pat (int (length u)) = int (length u + length a)"
  using firstIndex_append [OF assms, of b] by (simp add: indexOfFrom_def)

lemma indexOfFrom_none:
  assumes "\<not> includesStr a pat"
  shows "indexOfFrom (u @ a) pat (int (length u)) = - 1"
  using assms firstIndex_None [of a pat] by (simp add: indexOfFrom_def)

lemma substring_mid: "substring (u @ v @ w) (int (length u)) (int (length u + length v)) = v"
  by (simp add: substring_def Let_def)

lemma substringFrom_append: "substringFrom (u @ v) (int (length u)) = v"
  by (simp add: substringFrom_def substring_def Let_def)

lemma includes_after_it:
  "includesStr (''t('' @ s) ''it('' = includesStr s ''it(''"
  by simp

lemma includesStr_appendI: "includesStr (a @ pat @ b) pat"
proof (induction a)
  case Nil
  show ?case
  proof (cases "pat @ b")
    case Nil
    then show ?thesis by simp
  next
    case (Cons c cs)
    then have "prefix pat (c # cs)" by (metis prefixI)
    with Cons show ?thesis by simp
  qed
next
  case (Cons x a)
  then show ?case by simp
qed

text \<open>
  The block is cut as follows when it is \<open>pre\<close>, the suite declaration, \<open>header\<close>, a test
  case \<open>first\<close> and a test case \<open>second\<close>, with no suite declaration in front of this one
  and no other test case.
\<close>

lemma extract_two_tests:
  assumes f: "execFence rawCompletion = Some (pre @ ''describe('' @ header @ ''it('' @ first @ ''it('' @ second)"
    and d: "\<not> includesStr (pre @ ''describe'') ''describe(''"
    and h: "\<not> includesStr (pre @ ''describe('' @ header @ ''it'') ''it(''"
    and m: "\<not> includesStr (first @ ''it'') ''it(''"
    and e: "\<not> includesStr second ''it(''"
  shows "extractTestFromRawCompletion rawCompletion =
     (if first = second then [pre @ ''describe('' @ header @ ''it('' @ first]
      else [pre @ ''describe('' @ header @ ''it('' @ first,
            pre @ ''describe('' @ header @ ''it('' @ second])"
proof -
  define A where "A = pre @ ''describe('' @ header"
  define code where "code = A @ ''it('' @ first @ ''it('' @ second"
  have c: "pre @ ''describe('' @ header @ ''it('' @ first @ ''it('' @ second = code"
    by (simp add: code_def A_def)
  from h have h': "\<not> includesStr (A @ butlast ''it('') ''it(''" by (simp add: A_def)
  from m have m': "\<not> includesStr (first @ butlast ''it('') ''it(''" by simp
  from d have d': "\<not> includesStr (pre @ butlast ''describe('') ''describe(''" by simp
  \<comment> \<open>the pieces between the test cases\<close>
  have s1: "firstIndex code ''it('' = Some (length A)"
    unfolding code_def using firstIndex_append [OF _ h', of "first @ ''it('' @ second"] by simp
  define rest where "rest = first @ ''it('' @ second"
  have s2: "firstIndex rest ''it('' = Some (length first)"
    unfolding rest_def using firstIndex_append [OF _ m', of second] by simp
  have s3: "firstIndex second ''it('' = None" using e by (simp add: firstIndex_None)
  have sp3: "splitStr second ''it('' = [second]"
    by (subst splitStr.simps) (simp add: s3)
  have dr2: "drop (Suc (Suc (Suc (length first)))) rest = second" "take (length first) rest = first"
    by (simp_all add: rest_def)
  have sp2: "splitStr rest ''it('' = [first, second]"
    by (subst splitStr.simps) (simp add: s2 dr2 sp3)
  have dr: "drop (Suc (Suc (Suc (length A)))) code = rest" "take (length A) code = A"
    by (simp_all add: code_def rest_def)
  have sp: "splitStr code ''it('' = [A, first, second]"
    by (subst splitStr.simps) (simp add: s1 dr sp2)
  \<comment> \<open>the indices\<close>
  define i1 where "i1 = int (length A)"
  define i2 where "i2 = int (length A + 3 + length first)"
  have i0: "indexOf code ''describe('' = int (length pre)"
    using indexOfFrom_at [of "''describe(''" pre "[]" "header @ ''it('' @ first @ ''it('' @ second", OF _ d']
    by (simp add: indexOf_def code_def A_def)
  have j1: "indexOf code ''it('' = i1"
    using indexOfFrom_at [of "''it(''" A "[]" "first @ ''it('' @ second", OF _ h']
    by (simp add: indexOf_def code_def i1_def)
  have m'': "\<not> includesStr ((''t('' @ first) @ butlast ''it('') ''it(''" using m by simp
  have j2: "indexOfFrom code ''it('' (i1 + 1) = i2"
    using indexOfFrom_at [of "''it(''" "''t('' @ first" "A @ ''i''" second, OF _ m'']
    by (simp add: code_def i1_def i2_def ac_simps)
  have e'': "\<not> includesStr (''t('' @ second) ''it(''" using e by simp
  have j3: "indexOfFrom code ''it('' (i2 + 1) = - 1"
    using indexOfFrom_none [of "''t('' @ second" "''it(''" "A @ ''it('' @ first @ ''i''", OF e'']
    by (simp add: code_def i2_def ac_simps)
  have ne: "i2 \<noteq> - 1" by (simp add: i2_def)
  define T1 where "T1 = ''it('' @ first"
  define T2 where "T2 = ''it('' @ second"
  have t1: "substring code i1 i2 = T1"
    using substring_mid [of A "''it('' @ first" "''it('' @ second"]
    by (simp add: code_def i1_def i2_def T1_def ac_simps)
  have st2: "splitTests code i2 [T1] = ([T1], i2)"
    by (subst splitTests.simps) (simp add: j3)
  have st: "splitTests code i1 [] = ([T1], i2)"
    by (subst splitTests.simps) (simp add: j2 ne Let_def t1 setAdd_def st2)
  have l: "substringFrom code i2 = T2"
    using substringFrom_append [of "A @ ''it('' @ first" "''it('' @ second"]
    by (simp add: code_def i2_def T2_def ac_simps)
  have eq: "T1 = T2 \<longleftrightarrow> first = second" by (simp add: T1_def T2_def)
  have ps: "substring code 0 (int (length pre)) = pre"
    using substring_mid [of "[]" pre "''describe('' @ header @ ''it('' @ first @ ''it('' @ second"]
    by (simp add: code_def A_def)
  have sh: "substring code (int (length pre)) i1 = ''describe('' @ header"
    using substring_mid [of pre "''describe('' @ header" "''it('' @ first @ ''it('' @ second"]
    by (simp add: code_def A_def i1_def)
  show ?thesis
    unfolding extractTestFromRawCompletion_def f c
    by (simp add: sp i0 j1 st l ps sh Let_def setAdd_def newSet_def eq)
      (simp add: T1_def T2_def)
qed

text \<open>The import block that \<open>completeTest\<close> puts in front of a body, if any.\<close>

definition importsFor :: "prompt \<Rightarrow> string \<Rightarrow> string" where
  "importsFor p body =
     (if includesStr (firstLine body) ''require'' then [] else pimports (fieldsOf p) @ [nl])"

text \<open>The brackets that are open after a text are those open after its first part, as its
  second part leaves them.\<close>

lemma pendingClosers_append:
  "pendingClosers (a @ b) pending =
     (case pendingClosers a pending of None \<Rightarrow> None | Some rest \<Rightarrow> pendingClosers b rest)"
  by (induction a arbitrary: pending) (auto split: list.splits)

lemma completeTest_suite_accepted:
  assumes "closeBrackets E = closeBracketsModel" and "includesStr body ''describe(''"
  shows "completeTest E p body stub \<noteq> None
     \<longleftrightarrow> pendingClosers (importsFor p body @ body) [] \<noteq> None"
  using assms
  by (simp add: completeTest_def Let_def testCode_suite closeBracketsModel_def importsFor_def)

text \<open>
  Four suites: one that was cut off after the same test twice; a closed one whose second
  test case lies within the first; a closed one of two test cases, of which the first
  calls \<open>split(\<close>; and one whose first test case has a closing parenthesis too many.
\<close>

definition nestedSuite :: string where
  "nestedSuite =
     ''```'' @ [nl] @
     ''describe('s', function() {'' @ [nl] @
     ''it('a', function() {'' @ [nl] @
     ''it('b', g);'' @ [nl] @
     ''});'' @ [nl] @
     ''});'' @ [nl] @
     ''```''"

definition splitSuite :: string where
  "splitSuite =
     ''```js'' @ [nl] @
     ''describe('s', function() {'' @ [nl] @
     ''it('a', function() { assert('a,b'.split(',').length === 2); });'' @ [nl] @
     ''it('b', g);'' @ [nl] @
     ''});'' @ [nl] @
     ''```''"

definition brokenSuite :: string where
  "brokenSuite =
     ''```'' @ [nl] @
     ''describe('s', function() {'' @ [nl] @
     ''it('a', function() { assert(f(1)); }));'' @ [nl] @
     ''it('b', g);'' @ [nl] @
     ''});'' @ [nl] @
     ''```''"

definition repeatedTests :: string where
  "repeatedTests =
     ''```'' @ [nl] @ ''describe('s', function() {it('a', f);it('a', f);'' @ [nl] @ ''```''"

text \<open>
  C7, as stated, fails.  The candidates are collected in a set, so the suite with the same
  test twice gives one candidate.  The suite whose second test case lies within the first
  gives two candidates, and the second is refused: it closes brackets that the first test
  case opened.  The suite with the call of \<open>split(\<close> is cut at three places, and the
  candidate that starts within the call is refused.  Of the suite with the parenthesis
  too many, the first candidate is refused and the second is accepted.
\<close>

theorem C7_counterexample:
  "execFence repeatedTests = Some ''describe('s', function() {it('a', f);it('a', f);''
   \<and> extractTestFromRawCompletion repeatedTests = [''describe('s', function() {it('a', f);'']
   \<and> length (extractTestFromRawCompletion repeatedTests) \<noteq> 2
   \<and> execFence nestedSuite =
       Some (''describe('s', function() {'' @ [nl] @ ''it('a', function() {'' @ [nl] @
             ''it('b', g);'' @ [nl] @ ''});'' @ [nl] @ ''});'')
   \<and> extractTestFromRawCompletion nestedSuite =
       [''describe('s', function() {'' @ [nl] @ ''it('a', function() {'' @ [nl],
        ''describe('s', function() {'' @ [nl] @ ''it('b', g);'' @ [nl] @ ''});'' @ [nl] @ ''});'']
   \<and> completeTest exampleEnv plusPrompt (extractTestFromRawCompletion nestedSuite ! 1) True = None
   \<and> extractTestFromRawCompletion splitSuite =
       [''describe('s', function() {'' @ [nl] @ ''it('a', function() { assert('a,b'.spl'',
        ''describe('s', function() {'' @ [nl] @ ''it(',').length === 2); });'' @ [nl],
        ''describe('s', function() {'' @ [nl] @ ''it('b', g);'' @ [nl] @ ''});'']
   \<and> length (extractTestFromRawCompletion splitSuite) \<noteq> 2
   \<and> completeTest exampleEnv plusPrompt (extractTestFromRawCompletion splitSuite ! 1) True = None
   \<and> extractTestFromRawCompletion brokenSuite =
       [''describe('s', function() {'' @ [nl] @ ''it('a', function() { assert(f(1)); }));'' @ [nl],
        ''describe('s', function() {'' @ [nl] @ ''it('b', g);'' @ [nl] @ ''});'']
   \<and> completeTest exampleEnv plusPrompt (extractTestFromRawCompletion brokenSuite ! 0) True = None
   \<and> completeTest exampleEnv plusPrompt (extractTestFromRawCompletion brokenSuite ! 1) True \<noteq> None"
  by code_simp

text \<open>
  C7 (amended): for a raw completion whose first fenced block holds the text \<open>it(\<close>
  exactly twice, after one suite declaration, \<open>extractTestFromRawCompletion\<close> returns the
  material before the suite declaration and the suite header followed by the first test
  case, and the same followed by the second: two candidates when the two test cases
  differ as texts, one when they do not.  \<open>completeTest\<close> puts no headers around a
  candidate, only the import block in front of it when its first line does not contain
  \<open>require\<close>.  With \<open>closeBrackets\<close> as the spec describes it, a candidate is accepted
  exactly when every closing bracket in it matches the bracket that is open there: in
  the import block, the material before the suite and the suite header, and then in its
  test case, which may close the brackets that these have left open.  So the first
  candidate is accepted whenever the block behind the import block can be closed, and
  the second when, besides, the first test case leaves the open brackets as it found
  them.
\<close>

theorem C7_two_test_suite:
  assumes "execFence rawCompletion
      = Some (pre @ ''describe('' @ header @ ''it('' @ first @ ''it('' @ second)"
    and "\<not> includesStr (pre @ ''describe'') ''describe(''"
    and "\<not> includesStr (pre @ ''describe('' @ header @ ''it'') ''it(''"
    and "\<not> includesStr (first @ ''it'') ''it(''"
    and "\<not> includesStr second ''it(''"
    and "closeBrackets E = closeBracketsModel"
  shows "extractTestFromRawCompletion rawCompletion =
       (if first = second then [pre @ ''describe('' @ header @ ''it('' @ first]
        else [pre @ ''describe('' @ header @ ''it('' @ first,
              pre @ ''describe('' @ header @ ''it('' @ second])
     \<and> (\<forall>candidate\<in>set (extractTestFromRawCompletion rawCompletion).
          prefix (pre @ ''describe('' @ header) candidate
          \<and> testCode (fieldsOf p) candidate stubOutHeaders = importsFor p candidate @ candidate)
     \<and> (\<forall>test\<in>{first, second}.
          completeTest E p (pre @ ''describe('' @ header @ ''it('' @ test) stubOutHeaders \<noteq> None
          \<longleftrightarrow> (case pendingClosers
                     (importsFor p (pre @ ''describe('' @ header @ ''it('' @ test)
                        @ pre @ ''describe('' @ header) [] of
                 None \<Rightarrow> False
               | Some pending \<Rightarrow> pendingClosers (''it('' @ test) pending \<noteq> None))
     \<and> (pendingClosers
           (importsFor p (pre @ ''describe('' @ header @ ''it('' @ first)
              @ pre @ ''describe('' @ header @ ''it('' @ first @ ''it('' @ second) [] \<noteq> None \<longrightarrow>
         completeTest E p (pre @ ''describe('' @ header @ ''it('' @ first) stubOutHeaders \<noteq> None)
     \<and> (pendingClosers
           (importsFor p (pre @ ''describe('' @ header @ ''it('' @ second)
              @ pre @ ''describe('' @ header @ ''it('' @ first @ ''it('' @ second) [] \<noteq> None
         \<and> (\<exists>pending.
               pendingClosers
                 (importsFor p (pre @ ''describe('' @ header @ ''it('' @ second)
                    @ pre @ ''describe('' @ header) [] = Some pending
               \<and> pendingClosers (''it('' @ first) pending = Some pending) \<longrightarrow>
         completeTest E p (pre @ ''describe('' @ header @ ''it('' @ second) stubOutHeaders \<noteq> None)"
proof -
  note x = extract_two_tests [OF assms(1-5)]
  note cb = assms(6)
  define P where "P = pre @ ''describe('' @ header"
  have i: "includesStr (pre @ ''describe('' @ rest) ''describe(''" for rest
    by (rule includesStr_appendI)
  have tc: "testCode (fieldsOf p) (pre @ ''describe('' @ rest) stubOutHeaders
      = importsFor p (pre @ ''describe('' @ rest) @ pre @ ''describe('' @ rest" for rest
    using i [of rest] by (simp add: testCode_suite importsFor_def)
  have acc: "completeTest E p (pre @ ''describe('' @ header @ ''it('' @ test) stubOutHeaders \<noteq> None
      \<longleftrightarrow> (case pendingClosers
                 (importsFor p (pre @ ''describe('' @ header @ ''it('' @ test)
                    @ pre @ ''describe('' @ header) [] of
             None \<Rightarrow> False
           | Some pending \<Rightarrow> pendingClosers (''it('' @ test) pending \<noteq> None)" for test
  proof -
    define I where "I = importsFor p (pre @ ''describe('' @ header @ ''it('' @ test)
        @ pre @ ''describe('' @ header"
    define T where "T = ''it('' @ test"
    have e: "importsFor p (pre @ ''describe('' @ header @ ''it('' @ test)
            @ pre @ ''describe('' @ header @ ''it('' @ test = I @ T"
      by (simp add: I_def T_def)
    from completeTest_suite_accepted [OF cb i [of "header @ ''it('' @ test"], of p stubOutHeaders]
    have "completeTest E p (pre @ ''describe('' @ header @ ''it('' @ test) stubOutHeaders \<noteq> None
        \<longleftrightarrow> pendingClosers (I @ T) [] \<noteq> None" by (simp only: e)
    also have "\<dots> \<longleftrightarrow> (case pendingClosers I [] of None \<Rightarrow> False
        | Some pending \<Rightarrow> pendingClosers T pending \<noteq> None)"
      using pendingClosers_append [of I T "[]"] by (simp split: option.splits)
    finally show ?thesis by (simp only: I_def T_def)
  qed
  have c1: "completeTest E p (pre @ ''describe('' @ header @ ''it('' @ first) stubOutHeaders \<noteq> None"
    if h: "pendingClosers
           (importsFor p (pre @ ''describe('' @ header @ ''it('' @ first)
              @ pre @ ''describe('' @ header @ ''it('' @ first @ ''it('' @ second) [] \<noteq> None"
  proof -
    define I where "I = importsFor p (pre @ ''describe('' @ header @ ''it('' @ first)
        @ pre @ ''describe('' @ header @ ''it('' @ first"
    define T where "T = ''it('' @ second"
    have e: "importsFor p (pre @ ''describe('' @ header @ ''it('' @ first)
              @ pre @ ''describe('' @ header @ ''it('' @ first @ ''it('' @ second = I @ T"
      by (simp add: I_def T_def)
    from h have "pendingClosers (I @ T) [] \<noteq> None" unfolding e .
    with pendingClosers_append [of I T "[]"] have "pendingClosers I [] \<noteq> None"
      by (cases "pendingClosers I []") simp_all
    with completeTest_suite_accepted [OF cb i [of "header @ ''it('' @ first"], of p stubOutHeaders]
    show ?thesis by (simp add: I_def)
  qed
  have c2: "completeTest E p (pre @ ''describe('' @ header @ ''it('' @ second) stubOutHeaders \<noteq> None"
    if h: "pendingClosers
           (importsFor p (pre @ ''describe('' @ header @ ''it('' @ second)
              @ pre @ ''describe('' @ header @ ''it('' @ first @ ''it('' @ second) [] \<noteq> None
         \<and> (\<exists>pending.
               pendingClosers
                 (importsFor p (pre @ ''describe('' @ header @ ''it('' @ second)
                    @ pre @ ''describe('' @ header) [] = Some pending
               \<and> pendingClosers (''it('' @ first) pending = Some pending)"
  proof -
    define I where "I = importsFor p (pre @ ''describe('' @ header @ ''it('' @ second)
        @ pre @ ''describe('' @ header"
    define T1 where "T1 = ''it('' @ first"
    define T2 where "T2 = ''it('' @ second"
    from h obtain pending where a: "pendingClosers I [] = Some pending"
      and b: "pendingClosers T1 pending = Some pending"
      by (auto simp: I_def T1_def)
    have e: "importsFor p (pre @ ''describe('' @ header @ ''it('' @ second)
              @ pre @ ''describe('' @ header @ ''it('' @ first @ ''it('' @ second
        = I @ (T1 @ T2)" by (simp add: I_def T1_def T2_def)
    from h have "pendingClosers (I @ (T1 @ T2)) [] \<noteq> None" unfolding e by simp
    with pendingClosers_append [of I "T1 @ T2" "[]"]
    have "pendingClosers (T1 @ T2) pending \<noteq> None" by (simp add: a)
    with pendingClosers_append [of T1 T2 pending]
    have "pendingClosers T2 pending \<noteq> None" by (simp add: b)
    with acc [of second] a show ?thesis by (simp add: I_def T2_def)
  qed
  have p: "prefix (pre @ ''describe('' @ header) (pre @ ''describe('' @ header @ rest)" for rest
    by simp
  have m: "\<forall>candidate\<in>set (extractTestFromRawCompletion rawCompletion).
          prefix (pre @ ''describe('' @ header) candidate
          \<and> testCode (fieldsOf p) candidate stubOutHeaders = importsFor p candidate @ candidate"
    unfolding x
    using tc [of "header @ ''it('' @ first"] tc [of "header @ ''it('' @ second"]
      p [of "''it('' @ first"] p [of "''it('' @ second"]
    by (simp del: append_assoc same_prefix_prefix)
  from x m acc c1 c2 show ?thesis by blast
qed

theorem C7_two_test_suite_witness:
  "execFence twoTests =
     Some ([] @ ''describe('' @ ([sq] @ ''plus'' @ [sq] @ '', () => {'' @ [nl]) @ ''it('' @
           ([sq] @ ''a'' @ [sq] @ '', f)'' @ [nl]) @ ''it('' @
           ([sq] @ ''b'' @ [sq] @ '', g)'' @ [nl] @ ''})''))
   \<and> \<not> includesStr ([] @ ''describe'') ''describe(''
   \<and> \<not> includesStr ([] @ ''describe('' @ ([sq] @ ''plus'' @ [sq] @ '', () => {'' @ [nl]) @ ''it'') ''it(''
   \<and> \<not> includesStr (([sq] @ ''a'' @ [sq] @ '', f)'' @ [nl]) @ ''it'') ''it(''
   \<and> \<not> includesStr ([sq] @ ''b'' @ [sq] @ '', g)'' @ [nl] @ ''})'') ''it(''
   \<and> closeBrackets exampleEnv = closeBracketsModel
   \<and> pendingClosers
        (pimports (fieldsOf plusPrompt) @ [nl] @ ''describe('plus', () => {'' @ [nl]) [] = Some ''})''
   \<and> pendingClosers (''it('a', f)'' @ [nl]) ''})'' = Some ''})''
   \<and> extractTestFromRawCompletion twoTests =
       [''describe('plus', () => {'' @ [nl] @ ''it('a', f)'' @ [nl],
        ''describe('plus', () => {'' @ [nl] @ ''it('b', g)'' @ [nl] @ ''})'']
   \<and> completeTest exampleEnv plusPrompt
        (''describe('plus', () => {'' @ [nl] @ ''it('a', f)'' @ [nl]) True \<noteq> None
   \<and> completeTest exampleEnv plusPrompt
        (''describe('plus', () => {'' @ [nl] @ ''it('b', g)'' @ [nl] @ ''})'') True \<noteq> None"
proof -
  have a: "execFence twoTests =
     Some ([] @ ''describe('' @ ([sq] @ ''plus'' @ [sq] @ '', () => {'' @ [nl]) @ ''it('' @
           ([sq] @ ''a'' @ [sq] @ '', f)'' @ [nl]) @ ''it('' @
           ([sq] @ ''b'' @ [sq] @ '', g)'' @ [nl] @ ''})''))" by code_simp
  have b: "\<not> includesStr ([] @ ''describe'') ''describe(''" by code_simp
  have c: "\<not> includesStr ([] @ ''describe('' @ ([sq] @ ''plus'' @ [sq] @ '', () => {'' @ [nl]) @ ''it'') ''it(''"
    by code_simp
  have d: "\<not> includesStr (([sq] @ ''a'' @ [sq] @ '', f)'' @ [nl]) @ ''it'') ''it(''" by code_simp
  have e: "\<not> includesStr ([sq] @ ''b'' @ [sq] @ '', g)'' @ [nl] @ ''})'') ''it(''" by code_simp
  have f: "closeBrackets exampleEnv = closeBracketsModel" by (simp add: exampleEnv_def)
  have n: "[sq] @ ''a'' @ [sq] @ '', f)'' @ [nl] \<noteq> [sq] @ ''b'' @ [sq] @ '', g)'' @ [nl] @ ''})''"
    by simp
  have i1: "importsFor plusPrompt (''describe('plus', () => {'' @ [nl] @ ''it('a', f)'' @ [nl])
      = pimports (fieldsOf plusPrompt) @ [nl]" by code_simp
  have i2: "importsFor plusPrompt (''describe('plus', () => {'' @ [nl] @ ''it('b', g)'' @ [nl] @ ''})'')
      = pimports (fieldsOf plusPrompt) @ [nl]" by code_simp
  have g: "pendingClosers
        (pimports (fieldsOf plusPrompt) @ [nl] @ ''describe('plus', () => {'' @ [nl]) [] = Some ''})''"
    by code_simp
  have h: "pendingClosers (''it('a', f)'' @ [nl]) ''})'' = Some ''})''" by code_simp
  have k: "pendingClosers
        (pimports (fieldsOf plusPrompt) @ [nl] @ ''describe('plus', () => {'' @ [nl] @
           ''it('a', f)'' @ [nl] @ ''it('b', g)'' @ [nl] @ ''})'') [] \<noteq> None"
    by code_simp
  note t = C7_two_test_suite [OF a b c d e f, of plusPrompt True]
  from t n have x: "extractTestFromRawCompletion twoTests =
       [''describe('plus', () => {'' @ [nl] @ ''it('a', f)'' @ [nl],
        ''describe('plus', () => {'' @ [nl] @ ''it('b', g)'' @ [nl] @ ''})'']" by simp
  from t have "pendingClosers
           (importsFor plusPrompt ([] @ ''describe('' @ ([sq] @ ''plus'' @ [sq] @ '', () => {'' @ [nl])
                @ ''it('' @ ([sq] @ ''a'' @ [sq] @ '', f)'' @ [nl]))
              @ [] @ ''describe('' @ ([sq] @ ''plus'' @ [sq] @ '', () => {'' @ [nl]) @ ''it(''
              @ ([sq] @ ''a'' @ [sq] @ '', f)'' @ [nl]) @ ''it(''
              @ ([sq] @ ''b'' @ [sq] @ '', g)'' @ [nl] @ ''})'')) [] \<noteq> None \<longrightarrow>
         completeTest exampleEnv plusPrompt
           ([] @ ''describe('' @ ([sq] @ ''plus'' @ [sq] @ '', () => {'' @ [nl])
              @ ''it('' @ ([sq] @ ''a'' @ [sq] @ '', f)'' @ [nl])) True \<noteq> None"
    by (rule conjunct1 [OF conjunct2 [OF conjunct2 [OF conjunct2]]])
  with i1 k have y: "completeTest exampleEnv plusPrompt
        (''describe('plus', () => {'' @ [nl] @ ''it('a', f)'' @ [nl]) True \<noteq> None" by simp
  from t have "pendingClosers
           (importsFor plusPrompt ([] @ ''describe('' @ ([sq] @ ''plus'' @ [sq] @ '', () => {'' @ [nl])
                @ ''it('' @ ([sq] @ ''b'' @ [sq] @ '', g)'' @ [nl] @ ''})''))
              @ [] @ ''describe('' @ ([sq] @ ''plus'' @ [sq] @ '', () => {'' @ [nl]) @ ''it(''
              @ ([sq] @ ''a'' @ [sq] @ '', f)'' @ [nl]) @ ''it(''
              @ ([sq] @ ''b'' @ [sq] @ '', g)'' @ [nl] @ ''})'')) [] \<noteq> None
         \<and> (\<exists>pending.
               pendingClosers
                 (importsFor plusPrompt ([] @ ''describe('' @ ([sq] @ ''plus'' @ [sq] @ '', () => {'' @ [nl])
                    @ ''it('' @ ([sq] @ ''b'' @ [sq] @ '', g)'' @ [nl] @ ''})''))
                    @ [] @ ''describe('' @ ([sq] @ ''plus'' @ [sq] @ '', () => {'' @ [nl])) [] = Some pending
               \<and> pendingClosers (''it('' @ ([sq] @ ''a'' @ [sq] @ '', f)'' @ [nl])) pending = Some pending) \<longrightarrow>
         completeTest exampleEnv plusPrompt
           ([] @ ''describe('' @ ([sq] @ ''plus'' @ [sq] @ '', () => {'' @ [nl])
              @ ''it('' @ ([sq] @ ''b'' @ [sq] @ '', g)'' @ [nl] @ ''})'')) True \<noteq> None"
    by (rule conjunct2 [OF conjunct2 [OF conjunct2 [OF conjunct2]]])
  with i2 k g h have z: "completeTest exampleEnv plusPrompt
        (''describe('plus', () => {'' @ [nl] @ ''it('b', g)'' @ [nl] @ ''})'') True \<noteq> None" by simp
  from a b c d e f g h x y z show ?thesis by blast
qed

end
